theory Spec2Isabelle
  imports Complex_Main "HOL-Library.Log_Nat" "HOL-Library.Sublist" "HOL-Library.Multiset"
begin

section \<open>Python values\<close>

text \<open>
  The payloads of the upstream sources and the snapshot handed to the sampling engine are
  decoded JSON: \<open>None\<close>, booleans, integers, floats, strings, lists and dictionaries.
  A dictionary is an association list read with \<open>map_of\<close>.
\<close>

datatype json =
    JNull
  | JBool bool
  | JInt int
  | JFloat rat
  | JStr string
  | JArr "json list"
  | JObj "(string \<times> json) list"

text \<open>The exceptions the modelled code can raise; \<open>Inl\<close> carries the exception.\<close>

datatype py_error = TypeError | AttributeError | ValueError | KeyError | ZeroDivisionError

type_synonym 'a result = "py_error + 'a"

definition bind_result :: "'a result \<Rightarrow> ('a \<Rightarrow> 'b result) \<Rightarrow> 'b result" where
  "bind_result m f = (case m of Inl e \<Rightarrow> Inl e | Inr x \<Rightarrow> f x)"

text \<open>Truth value of an object in \<open>if x:\<close> and \<open>not x\<close>.\<close>

fun truthy :: "json \<Rightarrow> bool" where
  "truthy JNull = False"
| "truthy (JBool b) = b"
| "truthy (JInt n) = (n \<noteq> 0)"
| "truthy (JFloat r) = (r \<noteq> 0)"
| "truthy (JStr s) = (s \<noteq> [])"
| "truthy (JArr xs) = (xs \<noteq> [])"
| "truthy (JObj kvs) = (kvs \<noteq> [])"

text \<open>\<open>d.get(key, default)\<close>; only dictionaries have the method.\<close>

fun py_get :: "json \<Rightarrow> string \<Rightarrow> json \<Rightarrow> json result" where
  "py_get (JObj kvs) k d = Inr (case map_of kvs k of None \<Rightarrow> d | Some v \<Rightarrow> v)"
| "py_get _ k d = Inl AttributeError"

text \<open>\<open>d[key]\<close> with a string key.\<close>

fun py_getitem :: "json \<Rightarrow> string \<Rightarrow> json result" where
  "py_getitem (JObj kvs) k = (case map_of kvs k of None \<Rightarrow> Inl KeyError | Some v \<Rightarrow> Inr v)"
| "py_getitem _ k = Inl TypeError"

text \<open>
  \<open>key in x\<close> with a string key: key membership in a dictionary, element membership in a
  list, substring test on a string, \<open>TypeError\<close> otherwise.
\<close>

fun is_substring :: "string \<Rightarrow> string \<Rightarrow> bool" where
  "is_substring k [] = (k = [])"
| "is_substring k (c # cs) = (prefix k (c # cs) \<or> is_substring k cs)"

fun py_contains :: "string \<Rightarrow> json \<Rightarrow> bool result" where
  "py_contains k (JObj kvs) = Inr (map_of kvs k \<noteq> None)"
| "py_contains k (JArr xs) = Inr (JStr k \<in> set xs)"
| "py_contains k (JStr s) = Inr (is_substring k s)"
| "py_contains k _ = Inl TypeError"

section \<open>Double-precision arithmetic\<close>

text \<open>
  A Python float is an IEEE-754 binary64 number. A finite float is represented by the
  rational it denotes, and \<open>binary64\<close> rounds an exact result to the nearest number with a
  53-bit significand, ties to even. The exponent range is not represented: overflow
  (beyond about \<open>1.8e308\<close>), subnormal numbers, \<open>inf\<close> and \<open>nan\<close> are outside the model.
\<close>

definition round_half_even :: "rat \<Rightarrow> int" where
  "round_half_even q =
     (let f = \<lfloor>q\<rfloor>; r = q - of_int f
      in if r < 1 / 2 then f else if r > 1 / 2 then f + 1 else if even f then f else f + 1)"

definition pow2 :: "int \<Rightarrow> rat" where
  "pow2 k = (if k \<ge> 0 then 2 ^ nat k else 1 / 2 ^ nat (- k))"

text \<open>For \<open>x > 0\<close>, the exponent \<open>e\<close> with \<open>2^e \<le> x < 2^(e+1)\<close>.\<close>

definition floor_log2 :: "rat \<Rightarrow> int" where
  "floor_log2 x = (let (a, b) = quotient_of x; d = bitlen a - bitlen b
                   in if pow2 d \<le> x then d else d - 1)"

definition binary64 :: "rat \<Rightarrow> rat" where
  "binary64 x = (if x = 0 then 0
     else let e = floor_log2 \<bar>x\<bar>; ulp = pow2 (e - 52)
          in sgn x * of_int (round_half_even (\<bar>x\<bar> / ulp)) * ulp)"

text \<open>
  \<open>float(x)\<close>. An integer is converted with rounding, a string is parsed; the parser is a
  parameter \<open>P\<close> that gives the finite value a string denotes, if any.
\<close>

fun py_float :: "(string \<Rightarrow> rat option) \<Rightarrow> json \<Rightarrow> rat result" where
  "py_float P (JInt n) = Inr (binary64 (of_int n))"
| "py_float P (JFloat r) = Inr r"
| "py_float P (JBool b) = Inr (if b then 1 else 0)"
| "py_float P (JStr s) = (case P s of None \<Rightarrow> Inl ValueError | Some r \<Rightarrow> Inr r)"
| "py_float P _ = Inl TypeError"

text \<open>\<open>int(x)\<close> of a float truncates towards zero.\<close>

definition py_int :: "rat \<Rightarrow> int" where
  "py_int r = (if r \<ge> 0 then \<lfloor>r\<rfloor> else \<lceil>r\<rceil>)"

text \<open>The integer operands (\<open>bool\<close> is a subclass of \<open>int\<close>) and the numeric operands as floats.\<close>

fun as_int :: "json \<Rightarrow> int option" where
  "as_int (JInt n) = Some n"
| "as_int (JBool b) = Some (if b then 1 else 0)"
| "as_int _ = None"

fun as_float :: "json \<Rightarrow> rat option" where
  "as_float (JInt n) = Some (binary64 (of_int n))"
| "as_float (JBool b) = Some (if b then 1 else 0)"
| "as_float (JFloat r) = Some r"
| "as_float _ = None"

text \<open>
  \<open>x / y\<close>: the quotient of two integers is the correctly rounded exact quotient; with a
  float operand the other one is converted first.
\<close>

definition py_truediv :: "json \<Rightarrow> json \<Rightarrow> rat result" where
  "py_truediv x y =
     (case (as_int x, as_int y) of
        (Some a, Some b) \<Rightarrow>
          if b = 0 then Inl ZeroDivisionError else Inr (binary64 (of_int a / of_int b))
      | _ \<Rightarrow>
        (case (as_float x, as_float y) of
           (Some a, Some b) \<Rightarrow> if b = 0 then Inl ZeroDivisionError else Inr (binary64 (a / b))
         | _ \<Rightarrow> Inl TypeError))"

text \<open>\<open>x * y\<close> for a float \<open>x\<close>.\<close>

definition py_mul_float :: "rat \<Rightarrow> json \<Rightarrow> rat result" where
  "py_mul_float x y =
     (case as_float y of Some b \<Rightarrow> Inr (binary64 (x * b)) | None \<Rightarrow> Inl TypeError)"

text \<open>\<open>x + y\<close>: numbers are added, strings and lists concatenated.\<close>

definition py_add :: "json \<Rightarrow> json \<Rightarrow> json result" where
  "py_add x y =
     (case (as_int x, as_int y) of
        (Some a, Some b) \<Rightarrow> Inr (JInt (a + b))
      | _ \<Rightarrow>
        (case (as_float x, as_float y) of
           (Some a, Some b) \<Rightarrow> Inr (JFloat (binary64 (a + b)))
         | _ \<Rightarrow>
           (case (x, y) of
              (JStr s, JStr t) \<Rightarrow> Inr (JStr (s @ t))
            | (JArr s, JArr t) \<Rightarrow> Inr (JArr (s @ t))
            | _ \<Rightarrow> Inl TypeError)))"

text \<open>
  \<open>sum(xs)\<close> over floats: the sum starts from the integer \<open>0\<close> and every partial sum is
  rounded, from left to right. This is the summation of CPython up to version 3.11; later
  versions compensate the rounding errors of the partial sums.
\<close>

definition py_sum :: "rat list \<Rightarrow> rat" where
  "py_sum xs = foldl (\<lambda>acc x. binary64 (acc + x)) 0 xs"

text \<open>\<open>x / n\<close> for a float \<open>x\<close> and a length or count \<open>n\<close>, which is converted first.\<close>

definition py_div_len :: "rat \<Rightarrow> nat \<Rightarrow> rat" where
  "py_div_len x n = binary64 (x / binary64 (of_nat n))"



section \<open>Source normalizers (tool.py)\<close>

text \<open>
  The returned dictionaries. The three shapes share their first fields, so they are one
  record and two extensions of it.
\<close>

record minerlab_pool =
  accepted_solution :: json
  pool_hash :: int
  corrected_hashrate :: int

record apool_pool = minerlab_pool +
  total_share :: json
  shares_per_solution :: int

record solutions_pool = apool_pool +
  solo_solutions :: json
  pplns_solutions :: json

text \<open>\<open>int(total_share / accepted_solution) if accepted_solution else 0\<close>\<close>

definition shares_per_solution_of :: "json \<Rightarrow> json \<Rightarrow> int result" where
  "shares_per_solution_of shares accepted =
     (if truthy accepted
      then bind_result (py_truediv shares accepted) (\<lambda>q. Inr (py_int q))
      else Inr 0)"

text \<open>\<open>int(pool_hash / accepted_solution * total_solutions) if accepted_solution else 0\<close>\<close>

definition corrected_hashrate_of :: "int \<Rightarrow> json \<Rightarrow> json \<Rightarrow> int result" where
  "corrected_hashrate_of hash accepted total_solutions =
     (if truthy accepted
      then bind_result (py_truediv (JInt hash) accepted) (\<lambda>q.
           bind_result (py_mul_float q total_solutions) (\<lambda>p. Inr (py_int p)))
      else Inr 0)"

text \<open>\<open>format_apool_data(apool_data, total_solutions)\<close>, lines 112-133.\<close>

definition format_apool_data ::
  "(string \<Rightarrow> rat option) \<Rightarrow> json \<Rightarrow> json \<Rightarrow> apool_pool option result" where
  "format_apool_data P apool_data total_solutions =
     (if \<not> truthy apool_data then Inr None
      else bind_result (py_contains ''result'' apool_data) (\<lambda>has_result.
        if \<not> has_result then Inr None
        else
          bind_result (py_getitem apool_data ''result'') (\<lambda>result.
          bind_result (py_get result ''accepted_solution'' (JInt 0)) (\<lambda>accepted_solution.
          bind_result (py_get result ''pool_hash'' (JInt 0)) (\<lambda>raw_hash.
          bind_result (py_float P raw_hash) (\<lambda>hash_float.
          let pool_hash = py_int hash_float in
          bind_result (py_get result ''total_share'' (JInt 0)) (\<lambda>total_share.
          bind_result (shares_per_solution_of total_share accepted_solution) (\<lambda>sps.
          bind_result (corrected_hashrate_of pool_hash accepted_solution total_solutions) (\<lambda>ch.
          Inr (Some \<lparr>accepted_solution = accepted_solution,
                      pool_hash = pool_hash,
                      corrected_hashrate = ch,
                      total_share = total_share,
                      shares_per_solution = sps\<rparr>))))))))))"

text \<open>\<open>format_solutions_data(solutions_data, total_solutions)\<close>, lines 135-159.\<close>

definition format_solutions_data ::
  "(string \<Rightarrow> rat option) \<Rightarrow> json \<Rightarrow> json \<Rightarrow> solutions_pool option result" where
  "format_solutions_data P solutions_data total_solutions =
     (if \<not> truthy solutions_data then Inr None
      else
        bind_result (py_get solutions_data ''solo'' (JObj [])) (\<lambda>solo.
        bind_result (py_get solo ''solutions'' (JInt 0)) (\<lambda>solo_solutions.
        bind_result (py_get solutions_data ''pplns'' (JObj [])) (\<lambda>pplns.
        bind_result (py_get pplns ''solutions'' (JInt 0)) (\<lambda>pplns_solutions.
        bind_result (py_add solo_solutions pplns_solutions) (\<lambda>accepted_solution.
        bind_result (py_get solutions_data ''pplns'' (JObj [])) (\<lambda>pplns'.
        bind_result (py_get pplns' ''shares'' (JInt 0)) (\<lambda>total_share.
        bind_result (py_get solutions_data ''iterrate'' (JInt 0)) (\<lambda>raw_hash.
        bind_result (py_float P raw_hash) (\<lambda>hash_float.
        let pool_hash = py_int hash_float in
        bind_result (shares_per_solution_of total_share accepted_solution) (\<lambda>sps.
        bind_result (corrected_hashrate_of pool_hash accepted_solution total_solutions) (\<lambda>ch.
        Inr (Some \<lparr>accepted_solution = accepted_solution,
                    pool_hash = pool_hash,
                    corrected_hashrate = ch,
                    total_share = total_share,
                    shares_per_solution = sps,
                    solo_solutions = solo_solutions,
                    pplns_solutions = pplns_solutions\<rparr>)))))))))))))"

text \<open>
  \<open>format_minerlab_data(minerlab_data, total_solutions)\<close>, lines 161-180. The guard
  leaves non-empty lists only; \<open>data\<close> is the first element.
\<close>

definition format_minerlab_data ::
  "(string \<Rightarrow> rat option) \<Rightarrow> json \<Rightarrow> json \<Rightarrow> minerlab_pool option result" where
  "format_minerlab_data P minerlab_data total_solutions =
     (case minerlab_data of
        JArr (data # rest) \<Rightarrow>
          bind_result (py_get data ''currentEpochSolutions'' (JInt 0)) (\<lambda>accepted_solution.
          bind_result (py_get data ''currentIts'' (JInt 0)) (\<lambda>raw_hash.
          bind_result (py_float P raw_hash) (\<lambda>hash_float.
          let pool_hash = py_int hash_float in
          bind_result (corrected_hashrate_of pool_hash accepted_solution total_solutions) (\<lambda>ch.
          Inr (Some \<lparr>accepted_solution = accepted_solution,
                      pool_hash = pool_hash,
                      corrected_hashrate = ch\<rparr>)))))
      | _ \<Rightarrow> Inr None)"

section \<open>Time\<close>

text \<open>
  An aware UTC \<open>datetime\<close> is the number of microseconds since 1970-01-01 00:00:00 UTC
  (a Thursday); UTC has neither offsets nor leap seconds in Python. The bounds of the
  type (years 1 to 9999) are not represented.
\<close>

type_synonym datetime = int

definition usec_per_second :: int where
  "usec_per_second = 1000000"

definition usec_per_day :: int where
  "usec_per_day = 86400 * usec_per_second"

text \<open>\<open>d.weekday()\<close>: Monday is 0, Wednesday is 2, Sunday is 6.\<close>

definition weekday :: "datetime \<Rightarrow> int" where
  "weekday t = (t div usec_per_day + 3) mod 7"

text \<open>\<open>timedelta(days=n)\<close> as a number of microseconds.\<close>

definition timedelta_days :: "int \<Rightarrow> int" where
  "timedelta_days n = n * usec_per_day"

text \<open>\<open>d.replace(hour=12, minute=0, second=0, microsecond=0)\<close>: the same date at noon.\<close>

definition replace_noon :: "datetime \<Rightarrow> datetime" where
  "replace_noon t = (t div usec_per_day) * usec_per_day + 12 * 3600 * usec_per_second"

text \<open>
  \<open>(a - b).total_seconds()\<close> for the difference \<open>d = a - b\<close>: the float nearest to the
  number of microseconds divided by \<open>10^6\<close>.
\<close>

definition total_seconds :: "int \<Rightarrow> rat" where
  "total_seconds d = binary64 (of_int d / of_int usec_per_second)"

text \<open>
  The start of the current period is computed by the same five lines in three places;
  each copy is its own definition. This one is lines 21-28 of
  \<open>log_network_stats_event\<close>.
\<close>

definition log_period_start :: "datetime \<Rightarrow> datetime" where
  "log_period_start current_time =
     (let current_weekday = weekday current_time;
          days_since_wednesday = (current_weekday - 2) mod 7;
          period_start = current_time - timedelta_days days_since_wednesday;
          period_start = replace_noon period_start
      in if current_time < period_start then period_start - timedelta_days 7
         else period_start)"

text \<open>Lines 204-211 of \<open>calculate_network_stats\<close>.\<close>

definition calc_period_start :: "datetime \<Rightarrow> datetime" where
  "calc_period_start current_time =
     (let current_weekday = weekday current_time;
          days_since_wednesday = (current_weekday - 2) mod 7;
          period_start = current_time - timedelta_days days_since_wednesday;
          period_start = replace_noon period_start
      in if current_time < period_start then period_start - timedelta_days 7
         else period_start)"

text \<open>Lines 257-265 of \<open>get_network_stats_data\<close>.\<close>

definition stats_period_start :: "datetime \<Rightarrow> datetime" where
  "stats_period_start current_time =
     (let current_weekday = weekday current_time;
          days_since_wednesday = (current_weekday - 2) mod 7;
          period_start = current_time - timedelta_days days_since_wednesday;
          period_start = replace_noon period_start
      in if current_time < period_start then period_start - timedelta_days 7
         else period_start)"

text \<open>An instant that is a Wednesday at 12:00:00 UTC.\<close>

definition is_anchor :: "datetime \<Rightarrow> bool" where
  "is_anchor t \<longleftrightarrow> weekday t = 2 \<and> t mod usec_per_day = 12 * 3600 * usec_per_second"

text \<open>
  The closed form of the period start used in the proofs: with \<open>d\<close> the day number of
  \<open>t\<close> and \<open>k\<close> the number of days since the last Wednesday, the anchor is noon of day
  \<open>d - k\<close>, or of day \<open>d - 7\<close> on a Wednesday morning.
\<close>

definition noon :: int where
  "noon = 12 * 3600 * usec_per_second"

definition anchor_of :: "datetime \<Rightarrow> datetime" where
  "anchor_of t =
     (let d = t div usec_per_day; r = t mod usec_per_day; k = (d + 1) mod 7
      in if k = 0 \<and> r < noon then (d - 7) * usec_per_day + noon
         else (d - k) * usec_per_day + noon)"

section \<open>The store\<close>

text \<open>
  The two collections are lists of documents in insertion order. A Sample and a LogEntry
  both carry \<open>timestamp\<close> and \<open>period_start\<close>; every document has all the fields that
  \<open>calculate_network_stats\<close> and \<open>log_network_stats_event\<close> write. The store keeps the
  values it is given and its operations do not fail.
\<close>

record stamped =
  timestamp :: datetime
  period_start :: datetime

record sample = stamped +
  qli_hashrate :: rat
  apool_hashrate :: rat
  solutions_hashrate :: rat
  minerlab_hashrate :: rat
  was_idle :: json

text \<open>A dictionary with one entry per source: \<open>hashrate_data\<close> and \<open>validation_results\<close>.\<close>

record 'a per_source =
  qli :: 'a
  apool :: 'a
  solutions :: 'a
  minerlab :: 'a

text \<open>
  The messages are format strings; a message is the format with the values it
  interpolates. The \<open>data\<close> payloads are the two dictionaries the engine passes.
\<close>

datatype message =
    OnlySecondsSinceLastRecord rat
  | MiningIsIdleAt datetime
  | OnlySecondsSinceIdleRecovery rat
  | QliHashrateNonPositive
  | UsingAverageOfLastRecords nat
  | SomePoolHashrateNonPositive
  | SkippingAbnormalValues
  | SuccessfullyRecorded
  | ErrorCalculating py_error

datatype log_data =
    Hashrates "rat per_source"
  | HashratesAndValidation "rat per_source" "bool per_source"

record log_entry = stamped +
  event_type :: string
  message :: message
  data :: "log_data option"

text \<open>
  The state: both collections and the number of times the clock has been read. The clock
  is a parameter \<open>clk\<close>: \<open>clk n\<close> is what the \<open>n\<close>-th call of \<open>datetime.now(pytz.UTC)\<close>
  returns.
\<close>

record world =
  samples :: "sample list"
  logs :: "log_entry list"
  reads :: nat

definition now :: "(nat \<Rightarrow> datetime) \<Rightarrow> world \<Rightarrow> datetime \<times> world" where
  "now clk w = (clk (reads w), w\<lparr>reads := Suc (reads w)\<rparr>)"

text \<open>
  \<open>find().sort('timestamp', -1)\<close> and \<open>find().sort('timestamp', 1)\<close>. The database leaves
  the order of documents with equal timestamps open; here they stay in insertion order.
\<close>

definition sort_desc :: "('a stamped_scheme) list \<Rightarrow> ('a stamped_scheme) list" where
  "sort_desc docs = sort_key (\<lambda>d. - timestamp d) docs"


text \<open>\<open>find_one(sort=[('timestamp', -1)])\<close>: a document with the greatest timestamp.\<close>

definition find_one_latest :: "('a stamped_scheme) list \<Rightarrow> ('a stamped_scheme) option" where
  "find_one_latest docs = (case sort_desc docs of [] \<Rightarrow> None | d # _ \<Rightarrow> Some d)"

text \<open>\<open>delete_many({'timestamp': {'$lt': t}})\<close>\<close>

definition delete_older :: "datetime \<Rightarrow> ('a stamped_scheme) list \<Rightarrow> ('a stamped_scheme) list" where
  "delete_older t docs = filter (\<lambda>d. \<not> timestamp d < t) docs"

section \<open>Event log (network_stats.py, log_network_stats_event)\<close>

text \<open>
  Lines 30-40: when the period of the new entry is newer than the \<open>period_start\<close> of the
  latest entry, the entries older than that \<open>period_start\<close> are deleted.
\<close>

definition cleanup_old_logs :: "datetime \<Rightarrow> log_entry list \<Rightarrow> log_entry list" where
  "cleanup_old_logs new_period_start entries =
     (case find_one_latest entries of
        None \<Rightarrow> entries
      | Some last_log \<Rightarrow>
          (let latest_period_start = period_start last_log
           in if new_period_start > latest_period_start
              then delete_older latest_period_start entries
              else entries))"

text \<open>
  Lines 11-56. \<open>data\<close> is \<open>None\<close> or one of the non-empty dictionaries, which are the
  values for which \<open>if data:\<close> adds the field. None of the operations in the \<open>try\<close> block
  raises here, so its handler, which only prints, has no branch.
\<close>

definition log_network_stats_event ::
  "(nat \<Rightarrow> datetime) \<Rightarrow> string \<Rightarrow> message \<Rightarrow> log_data option \<Rightarrow> world \<Rightarrow> world" where
  "log_network_stats_event clk etype msg dat w0 =
     (let (current_time, w) = now clk w0;
          new_period_start = log_period_start current_time;
          w = w\<lparr>logs := cleanup_old_logs new_period_start (logs w)\<rparr>;
          log_entry = \<lparr>timestamp = current_time, period_start = new_period_start,
                       event_type = etype, message = msg, data = dat\<rparr>
      in w\<lparr>logs := logs w @ [log_entry]\<rparr>)"

section \<open>Hashrate plausibility check (network_stats.py, is_valid_hashrate)\<close>

text \<open>
  Sample readings are Python floats: a reading is the rational that the double denotes, and
  the operations on readings round as \<open>binary64\<close> does. Comparisons and \<open>abs\<close> are exact.
\<close>




section \<open>Sampling engine (network_stats.py, calculate_network_stats)\<close>

text \<open>Line 118: \<open>tool_data.get('data', {}).get('idle', False)\<close>\<close>

definition get_idle :: "json \<Rightarrow> json result" where
  "get_idle tool_data =
     bind_result (py_get tool_data ''data'' (JObj [])) (\<lambda>d. py_get d ''idle'' (JBool False))"

text \<open>Lines 137-156: the four readings, each \<open>0\<close> when its key is missing.\<close>

definition get_hashrate_data :: "(string \<Rightarrow> rat option) \<Rightarrow> json \<Rightarrow> rat per_source result" where
  "get_hashrate_data P tool_data =
     bind_result (py_get tool_data ''data'' (JObj [])) (\<lambda>d1.
     bind_result (py_get d1 ''pool_hashrate'' (JObj [])) (\<lambda>pool_hashrate.
     bind_result (py_get pool_hashrate ''current'' (JObj [])) (\<lambda>current_hashrates.
     bind_result (py_get tool_data ''data'' (JObj [])) (\<lambda>d2.
     bind_result (py_get d2 ''apool'' (JObj [])) (\<lambda>apool_data.
     bind_result (py_get tool_data ''data'' (JObj [])) (\<lambda>d3.
     bind_result (py_get d3 ''solutions'' (JObj [])) (\<lambda>solutions_data.
     bind_result (py_get tool_data ''data'' (JObj [])) (\<lambda>d4.
     bind_result (py_get d4 ''minerlab'' (JObj [])) (\<lambda>minerlab_data.
     bind_result (py_get current_hashrates ''qli_hashrate'' (JInt 0)) (\<lambda>v1.
     bind_result (py_float P v1) (\<lambda>estimated_its.
     bind_result (py_get apool_data ''corrected_hashrate'' (JInt 0)) (\<lambda>v2.
     bind_result (py_float P v2) (\<lambda>apool_hashrate.
     bind_result (py_get solutions_data ''corrected_hashrate'' (JInt 0)) (\<lambda>v3.
     bind_result (py_float P v3) (\<lambda>solutions_hashrate.
     bind_result (py_get minerlab_data ''corrected_hashrate'' (JInt 0)) (\<lambda>v4.
     bind_result (py_float P v4) (\<lambda>minerlab_hashrate.
     Inr \<lparr>qli = estimated_its, apool = apool_hashrate,
          solutions = solutions_hashrate, minerlab = minerlab_hashrate\<rparr>)))))))))))))))))"

text \<open>Lines 249-252: the handler of the \<open>try\<close> block.\<close>

definition on_exception :: "(nat \<Rightarrow> datetime) \<Rightarrow> py_error \<Rightarrow> world \<Rightarrow> world" where
  "on_exception clk e w = log_network_stats_event clk ''error'' (ErrorCalculating e) None w"

text \<open>
  Lines 173-176: the (at most five) most recent Samples with a strictly positive
  \<open>qli_hashrate\<close>.
\<close>

definition recent_records :: "sample list \<Rightarrow> sample list" where
  "recent_records docs = take 5 (sort_desc (filter (\<lambda>d. qli_hashrate d > 0) docs))"

text \<open>
  Lines 166-182: the check of the QLI reading. Returns the reading to store, the
  validation map and the state.
\<close>

definition check_qli ::
  "(nat \<Rightarrow> datetime) \<Rightarrow> rat \<Rightarrow> bool per_source \<Rightarrow> world \<Rightarrow> rat \<times> bool per_source \<times> world" where
  "check_qli clk estimated_its validation_results w =
     (if estimated_its \<le> 0 then
        (let w = log_network_stats_event clk ''warning'' QliHashrateNonPositive None w;
             validation_results = validation_results\<lparr>qli := False\<rparr>;
             recent = recent_records (samples w)
         in if recent \<noteq> [] then
              (let estimated_its =
                     py_div_len (py_sum (map qli_hashrate recent)) (length recent);
                   w = log_network_stats_event clk ''info''
                         (UsingAverageOfLastRecords (length recent)) None w;
                   validation_results = validation_results\<lparr>qli := True\<rparr>
               in (estimated_its, validation_results, w))
            else (estimated_its, validation_results, w))
      else (estimated_its, validation_results, w))"

text \<open>Lines 184-193: the check of the three pool readings.\<close>

definition check_pools ::
  "(nat \<Rightarrow> datetime) \<Rightarrow> rat per_source \<Rightarrow> bool per_source \<Rightarrow> world \<Rightarrow> bool per_source \<times> world" where
  "check_pools clk hashrate_data validation_results w =
     (if apool hashrate_data \<le> 0 \<or> solutions hashrate_data \<le> 0 \<or> minerlab hashrate_data \<le> 0
      then
        (let w = log_network_stats_event clk ''warning'' SomePoolHashrateNonPositive
                   (Some (Hashrates hashrate_data)) w;
             validation_results =
               (if apool hashrate_data \<le> 0 then validation_results\<lparr>apool := False\<rparr>
                else validation_results);
             validation_results =
               (if solutions hashrate_data \<le> 0 then validation_results\<lparr>solutions := False\<rparr>
                else validation_results);
             validation_results =
               (if minerlab hashrate_data \<le> 0 then validation_results\<lparr>minerlab := False\<rparr>
                else validation_results)
         in (validation_results, w))
      else (validation_results, w))"

text \<open>\<open>all(validation_results.values())\<close>\<close>

definition all_values :: "bool per_source \<Rightarrow> bool" where
  "all_values v \<longleftrightarrow> qli v \<and> apool v \<and> solutions v \<and> minerlab v"

text \<open>
  Lines 213-224: when the new period is newer than the \<open>period_start\<close> of the previous
  Sample, the Samples older than that \<open>period_start\<close> are deleted.
\<close>

definition cleanup_old_records :: "datetime \<Rightarrow> sample option \<Rightarrow> sample list \<Rightarrow> sample list" where
  "cleanup_old_records new_period_start last_record docs =
     (case last_record of
        None \<Rightarrow> docs
      | Some r \<Rightarrow>
          (let latest_period_start = period_start r
           in if new_period_start > latest_period_start
              then delete_older latest_period_start docs
              else docs))"

text \<open>Lines 204-241: period rollover, retention and the insertion of the Sample.\<close>

definition commit_record ::
  "(nat \<Rightarrow> datetime) \<Rightarrow> datetime \<Rightarrow> sample option \<Rightarrow> json \<Rightarrow> rat \<Rightarrow> rat per_source
     \<Rightarrow> bool per_source \<Rightarrow> world \<Rightarrow> world" where
  "commit_record clk current_time last_record is_idle estimated_its hashrate_data
       validation_results w =
     (let new_period_start = calc_period_start current_time;
          w = w\<lparr>samples := cleanup_old_records new_period_start last_record (samples w)\<rparr>;
          record = \<lparr>timestamp = current_time, period_start = new_period_start,
                    qli_hashrate = estimated_its,
                    apool_hashrate = apool hashrate_data,
                    solutions_hashrate = solutions hashrate_data,
                    minerlab_hashrate = minerlab hashrate_data,
                    was_idle = is_idle\<rparr>;
          w = w\<lparr>samples := samples w @ [record]\<rparr>
      in log_network_stats_event clk ''success'' SuccessfullyRecorded
           (Some (HashratesAndValidation hashrate_data validation_results)) w)"

text \<open>Lines 158-243: validation of the extracted readings, then the commit.\<close>

definition validate_and_commit ::
  "(nat \<Rightarrow> datetime) \<Rightarrow> datetime \<Rightarrow> sample option \<Rightarrow> json \<Rightarrow> rat per_source \<Rightarrow> world \<Rightarrow> world" where
  "validate_and_commit clk current_time last_record is_idle hashrate_data w =
     (let validation_results = \<lparr>qli = True, apool = True, solutions = True, minerlab = True\<rparr>;
          (estimated_its, validation_results, w) =
             check_qli clk (qli hashrate_data) validation_results w;
          (validation_results, w) = check_pools clk hashrate_data validation_results w
      in if \<not> all_values validation_results
         then log_network_stats_event clk ''validation'' SkippingAbnormalValues
                (Some (HashratesAndValidation hashrate_data validation_results)) w
         else commit_record clk current_time last_record is_idle estimated_its hashrate_data
                validation_results w)"

text \<open>Lines 105-112: a previous Sample exists and is less than 300 seconds old.\<close>

definition interval_guard :: "datetime \<Rightarrow> sample option \<Rightarrow> bool" where
  "interval_guard current_time last_record =
     (case last_record of
        Some r \<Rightarrow> total_seconds (current_time - timestamp r) < 300
      | None \<Rightarrow> False)"

text \<open>
  Lines 128-131: the previous Sample is marked idle and is less than 300 seconds old.
\<close>

definition recovery_guard :: "datetime \<Rightarrow> sample option \<Rightarrow> bool" where
  "recovery_guard current_time last_record =
     (case last_record of
        Some r \<Rightarrow> truthy (was_idle r) \<and> total_seconds (current_time - timestamp r) < 300
      | None \<Rightarrow> False)"

text \<open>
  \<open>calculate_network_stats(tool_data)\<close>, lines 92-252. The exceptions of the modelled
  operations are raised by the dictionary reads and the \<open>float\<close> conversions, before
  anything is written; the handler logs an \<open>error\<close> event.
\<close>

definition calculate_network_stats ::
  "(string \<Rightarrow> rat option) \<Rightarrow> (nat \<Rightarrow> datetime) \<Rightarrow> json \<Rightarrow> world \<Rightarrow> world" where
  "calculate_network_stats P clk tool_data w0 =
     (let (current_time, w) = now clk w0;
          last_record = find_one_latest (samples w)
      in if interval_guard current_time last_record
         then log_network_stats_event clk ''skip''
                (OnlySecondsSinceLastRecord
                   (total_seconds (current_time - timestamp (the last_record)))) None w
         else
           (case get_idle tool_data of
              Inl e \<Rightarrow> on_exception clk e w
            | Inr is_idle \<Rightarrow>
                if truthy is_idle
                then log_network_stats_event clk ''skip'' (MiningIsIdleAt current_time) None w
                else if recovery_guard current_time last_record
                then log_network_stats_event clk ''skip''
                       (OnlySecondsSinceIdleRecovery
                          (total_seconds (current_time - timestamp (the last_record)))) None w
                else
                  (case get_hashrate_data P tool_data of
                     Inl e \<Rightarrow> on_exception clk e w
                   | Inr hashrate_data \<Rightarrow>
                       validate_and_commit clk current_time last_record is_idle
                         hashrate_data w)))"

text \<open>
  The snapshot reports idle: the idle flag can be read and is true in a condition.
\<close>

definition snapshot_idle :: "json \<Rightarrow> bool" where
  "snapshot_idle tool_data =
     (case get_idle tool_data of Inl e \<Rightarrow> False | Inr is_idle \<Rightarrow> truthy is_idle)"

text \<open>
  A tick passes the interval, idle and recovery guards and extracts the readings
  \<open>hashrate_data\<close>: the conditions under which lines 158-243 run.
\<close>

definition passes_guards ::
  "(string \<Rightarrow> rat option) \<Rightarrow> (nat \<Rightarrow> datetime) \<Rightarrow> json \<Rightarrow> world \<Rightarrow> rat per_source \<Rightarrow> bool" where
  "passes_guards P clk tool_data w hashrate_data =
     (let current_time = clk (reads w);
          last_record = find_one_latest (samples w)
      in \<not> interval_guard current_time last_record
         \<and> (case get_idle tool_data of Inl e \<Rightarrow> False | Inr is_idle \<Rightarrow> \<not> truthy is_idle)
         \<and> \<not> recovery_guard current_time last_record
         \<and> get_hashrate_data P tool_data = Inr hashrate_data)"

text \<open>
  The outcome of lines 158-193 for the readings \<open>hashrate_data\<close> on the Samples \<open>docs\<close>: the
  validation map, and the QLI value that would be stored.
\<close>

definition validation_map :: "rat per_source \<Rightarrow> sample list \<Rightarrow> bool per_source" where
  "validation_map hashrate_data docs =
     \<lparr>qli = (qli hashrate_data > 0 \<or> recent_records docs \<noteq> []),
      apool = (apool hashrate_data > 0),
      solutions = (solutions hashrate_data > 0),
      minerlab = (minerlab hashrate_data > 0)\<rparr>"

definition stored_qli :: "rat per_source \<Rightarrow> sample list \<Rightarrow> rat" where
  "stored_qli hashrate_data docs =
     (if qli hashrate_data \<le> 0 \<and> recent_records docs \<noteq> []
      then py_div_len (py_sum (map qli_hashrate (recent_records docs)))
             (length (recent_records docs))
      else qli hashrate_data)"


text \<open>
  The stores this engine populates: the Sample collection starts empty and is changed by
  ticks of the engine only; log events may occur in between.
\<close>

inductive engine_populated ::
  "(string \<Rightarrow> rat option) \<Rightarrow> (nat \<Rightarrow> datetime) \<Rightarrow> world \<Rightarrow> bool"
  for P :: "string \<Rightarrow> rat option" and clk :: "nat \<Rightarrow> datetime" where
  no_samples: "samples w = [] \<Longrightarrow> engine_populated P clk w"
| tick: "engine_populated P clk w \<Longrightarrow> engine_populated P clk (calculate_network_stats P clk tool_data w)"
| event: "engine_populated P clk w \<Longrightarrow> engine_populated P clk (log_network_stats_event clk e m d w)"

section \<open>Period aggregator (network_stats.py, get_network_stats_data)\<close>








section \<open>The period aggregator in the specification's words\<close>






section \<open>Example inputs\<close>

text \<open>
  A parser that accepts no string, and a snapshot of the shape \<open>get_tool_data\<close> returns:
  the idle flag, the QLI reading and the three corrected pool hashrates.
\<close>

definition no_parse :: "string \<Rightarrow> rat option" where
  "no_parse s = None"

definition snapshot :: "json \<Rightarrow> json \<Rightarrow> json \<Rightarrow> json \<Rightarrow> json \<Rightarrow> json" where
  "snapshot idle q a s m =
     JObj [(''status'', JStr ''success''),
           (''data'', JObj [
              (''idle'', idle),
              (''pool_hashrate'', JObj [(''current'', JObj [(''qli_hashrate'', q)])]),
              (''apool'', JObj [(''corrected_hashrate'', a)]),
              (''solutions'', JObj [(''corrected_hashrate'', s)]),
              (''minerlab'', JObj [(''corrected_hashrate'', m)])])]"

text \<open>
  Three consecutive period starts: 1969-12-31, 1970-01-07 and 1970-01-14, each at
  12:00:00 UTC.
\<close>

definition anchor_A :: datetime where
  "anchor_A = - 43200000000"

definition anchor_B :: datetime where
  "anchor_B = 561600000000"

definition anchor_C :: datetime where
  "anchor_C = 1166400000000"

text \<open>A store with one Sample taken at the epoch, and a clock that starts 400 seconds later.\<close>

definition sample_100 :: sample where
  "sample_100 = \<lparr>timestamp = 0, period_start = anchor_A,
      qli_hashrate = 100, apool_hashrate = 100, solutions_hashrate = 100,
      minerlab_hashrate = 100, was_idle = JBool False\<rparr>"

definition world_one_sample :: world where
  "world_one_sample = \<lparr>samples = [sample_100], logs = [], reads = 0\<rparr>"

definition clock_400s :: "nat \<Rightarrow> datetime" where
  "clock_400s n = 400000000 + int n"

definition clock_200s :: "nat \<Rightarrow> datetime" where
  "clock_200s n = 200000000 + int n"

text \<open>
  A store with a Sample and a log entry of the first period and a Sample and a log entry of
  the second period, and a clock that starts in the third period.
\<close>

definition sample_A :: sample where
  "sample_A = \<lparr>timestamp = 1000, period_start = anchor_A,
      qli_hashrate = 100, apool_hashrate = 100, solutions_hashrate = 100,
      minerlab_hashrate = 100, was_idle = JBool False\<rparr>"

definition sample_B :: sample where
  "sample_B = \<lparr>timestamp = 561600001000, period_start = anchor_B,
      qli_hashrate = 100, apool_hashrate = 100, solutions_hashrate = 100,
      minerlab_hashrate = 100, was_idle = JBool False\<rparr>"

definition entry_A :: log_entry where
  "entry_A = \<lparr>timestamp = 1001, period_start = anchor_A, event_type = ''success'',
      message = SuccessfullyRecorded, data = None\<rparr>"

definition entry_B :: log_entry where
  "entry_B = \<lparr>timestamp = 561600001001, period_start = anchor_B, event_type = ''success'',
      message = SuccessfullyRecorded, data = None\<rparr>"

definition world_two_periods :: world where
  "world_two_periods = \<lparr>samples = [sample_A, sample_B], logs = [entry_A, entry_B], reads = 0\<rparr>"

definition clock_C :: "nat \<Rightarrow> datetime" where
  "clock_C n = 1166400001000 + int n"


text \<open>The empty store.\<close>

definition world_empty :: world where
  "world_empty = \<lparr>samples = [], logs = [], reads = 0\<rparr>"



definition clock_2400s :: "nat \<Rightarrow> datetime" where
  "clock_2400s n = 2400000000 + int n"





section \<open>Double-precision arithmetic on integers\<close>

lemma round_half_even_of_int: "round_half_even (of_int m) = m"
  by (simp add: round_half_even_def)

lemma pow2_pos: "0 < pow2 k"
  by (simp add: pow2_def)

lemma binary64_of_int:
  assumes "0 \<le> n" "n < 2 ^ 53"
  shows "binary64 (of_int n) = of_int n"
proof (cases "n = 0")
  case True
  then show ?thesis by (simp add: binary64_def)
next
  case False
  with assms have pos: "0 < n" by simp
  define d where "d = bitlen n - 1"
  have b1: "bitlen 1 = 1" by (simp add: bitlen_alt_def)
  from bitlen_bounds[OF pos] have lo: "2 ^ nat d \<le> n" by (simp add: d_def)
  have d0: "0 \<le> d"
    using pos unfolding d_def by (smt (verit) bitlen_eq_zero_iff bitlen_nonneg)
  have "bitlen n \<le> 53"
    using assms by (simp add: bitlen_le_iff_power)
  then have d52: "d \<le> 52" by (simp add: d_def)
  have p: "pow2 d = 2 ^ nat d" using d0 by (simp add: pow2_def)
  have "(2::rat) ^ nat d \<le> of_int n"
    using lo by (metis of_int_le_iff of_int_numeral of_int_power)
  then have fl: "floor_log2 (of_int n) = d"
    by (simp add: floor_log2_def b1 d_def[symmetric] p)
  define k where "k = nat (52 - d)"
  have ulp: "pow2 (d - 52) = 1 / 2 ^ k"
    using d52 by (auto simp: pow2_def k_def)
  have q: "of_int n / pow2 (d - 52) = (of_int (n * 2 ^ k) :: rat)"
    by (simp add: ulp)
  have "binary64 (of_int n) = sgn (of_int n) * of_int (round_half_even (of_int (n * 2 ^ k))) * (1 / 2 ^ k)"
    using pos by (simp add: binary64_def fl Let_def q[symmetric] ulp abs_of_pos del: of_int_mult of_int_power)
  also have "\<dots> = of_int n"
    unfolding round_half_even_of_int using pos by simp
  finally show ?thesis .
qed

lemma py_int_of_int: "py_int (of_int n) = n"
  by (simp add: py_int_def)

lemma corrected_hashrate_exact:
  assumes "0 < a" "0 \<le> p" "0 \<le> t" "a dvd p" "t < 2 ^ 53" "p div a * t < 2 ^ 53"
    and "p < 2 ^ 53"
  shows "corrected_hashrate_of p (JInt a) (JInt t) = Inr (p div a * t)"
    and "\<lfloor>(of_int p :: rat) / of_int a * of_int t\<rfloor> = p div a * t"
proof -
  define k where "k = p div a"
  have pk: "p = k * a" using assms(4) by (simp add: k_def)
  have k0: "0 \<le> k" using assms by (simp add: k_def pos_imp_zdiv_nonneg_iff)
  have quot: "(of_int p :: rat) / of_int a = of_int k"
    using assms(1) by (simp add: pk)
  have "k * 1 \<le> k * a" using k0 assms(1) by (intro mult_left_mono) simp_all
  then have klt: "k < 2 ^ 53" using assms(7) by (simp add: pk)
  show "\<lfloor>(of_int p :: rat) / of_int a * of_int t\<rfloor> = p div a * t"
    unfolding quot k_def[symmetric] by (metis floor_of_int of_int_mult)
  have kt0: "0 \<le> k * t" using k0 assms(3) by simp
  have b1: "binary64 (of_int k) = of_int k" using binary64_of_int[OF k0 klt] .
  have b2: "binary64 (of_int t) = of_int t" using binary64_of_int[OF assms(3,5)] .
  have b3: "binary64 (of_int k * of_int t) = of_int (k * t)"
    using binary64_of_int[OF kt0] assms(6) by (simp add: k_def)
  have nz: "a \<noteq> 0" using assms(1) by simp
  show "corrected_hashrate_of p (JInt a) (JInt t) = Inr (p div a * t)"
    using nz
    by (simp add: corrected_hashrate_of_def py_truediv_def py_mul_float_def bind_result_def
        quot b1 b2 b3 py_int_of_int k_def[symmetric] del: of_int_mult)
qed

section \<open>Rounding to double precision\<close>

lemma pow2_powi: "pow2 k = 2 powi k"
  by (simp add: pow2_def power_int_def power_one_over)

lemma pow2_add: "pow2 (i + j) = pow2 i * pow2 j"
  by (simp add: pow2_powi power_int_add)

lemma pow2_mono: "i \<le> j \<Longrightarrow> pow2 i \<le> pow2 j"
  by (simp add: pow2_powi power_int_increasing)

lemma pow2_less_imp: "pow2 i < pow2 j \<Longrightarrow> i < j"
  using pow2_mono[of j i] by (cases "i < j") auto

lemma round_half_even_bounds: "\<lfloor>q\<rfloor> \<le> round_half_even q" "round_half_even q \<le> \<lfloor>q\<rfloor> + 1"
  by (simp_all add: round_half_even_def Let_def)

lemma round_half_even_mono:
  assumes "q1 \<le> q2"
  shows "round_half_even q1 \<le> round_half_even q2"
proof (cases "\<lfloor>q1\<rfloor> = \<lfloor>q2\<rfloor>")
  case True
  have "q1 - of_int \<lfloor>q2\<rfloor> \<le> q2 - of_int \<lfloor>q2\<rfloor>" using assms by simp
  then show ?thesis
    unfolding round_half_even_def Let_def True by auto
next
  case False
  with assms have "\<lfloor>q1\<rfloor> < \<lfloor>q2\<rfloor>" by (simp add: floor_mono order.strict_iff_order)
  then have "\<lfloor>q1\<rfloor> + 1 \<le> \<lfloor>q2\<rfloor>" by simp
  with round_half_even_bounds(2)[of q1] round_half_even_bounds(1)[of q2]
  show ?thesis by linarith
qed

lemma round_half_even_ge: "of_int m \<le> q \<Longrightarrow> m \<le> round_half_even q"
  using round_half_even_mono[of "of_int m" q] by (simp add: round_half_even_of_int)

lemma round_half_even_le: "q \<le> of_int m \<Longrightarrow> round_half_even q \<le> m"
  using round_half_even_mono[of q "of_int m"] by (simp add: round_half_even_of_int)

lemma floor_log2_bounds:
  assumes "0 < x"
  shows "pow2 (floor_log2 x) \<le> x" and "x < pow2 (floor_log2 x + 1)"
proof -
  obtain a b where q: "quotient_of x = (a, b)" by (cases "quotient_of x")
  then have x: "x = of_int a / of_int b" and b: "0 < b"
    by (simp_all add: quotient_of_div quotient_of_denom_pos)
  have a: "0 < a" using assms b unfolding x by (simp add: zero_less_divide_iff)
  define la where "la = bitlen a"
  define lb where "lb = bitlen b"
  define d where "d = la - lb"
  have la1: "1 \<le> la" using a unfolding la_def by (smt (verit) bitlen_eq_zero_iff bitlen_nonneg)
  have lb1: "1 \<le> lb" using b unfolding lb_def by (smt (verit) bitlen_eq_zero_iff bitlen_nonneg)
  from bitlen_bounds[OF a] have ab: "2 ^ nat (la - 1) \<le> a" "a < 2 ^ nat la"
    by (simp_all add: la_def)
  from bitlen_bounds[OF b] have bb: "2 ^ nat (lb - 1) \<le> b" "b < 2 ^ nat lb"
    by (simp_all add: lb_def)
  have cast_le: "\<And>n (i::int). 2 ^ n \<le> i \<Longrightarrow> (2::rat) ^ n \<le> of_int i"
    by (metis of_int_le_iff of_int_numeral of_int_power)
  have cast_less: "\<And>n (i::int). i < 2 ^ n \<Longrightarrow> (of_int i :: rat) < 2 ^ n"
    by (metis of_int_less_iff of_int_numeral of_int_power)
  have ra: "pow2 (la - 1) \<le> of_int a" "of_int a < pow2 la"
    using cast_le[OF ab(1)] cast_less[OF ab(2)] la1 by (simp_all add: pow2_def)
  have rb: "pow2 (lb - 1) \<le> of_int b" "of_int b < pow2 lb"
    using cast_le[OF bb(1)] cast_less[OF bb(2)] lb1 by (simp_all add: pow2_def)
  have bpos: "(0::rat) < of_int b" using b by simp
  have up: "x < pow2 (d + 1)"
  proof -
    have "of_int a < pow2 la" by (rule ra)
    also have "pow2 la = pow2 (d + 1) * pow2 (lb - 1)"
      by (simp add: d_def pow2_add[symmetric])
    also have "\<dots> \<le> pow2 (d + 1) * of_int b"
      using rb(1) pow2_pos[of "d + 1"] by (simp add: mult_left_mono)
    finally show ?thesis using bpos unfolding x by (simp add: pos_divide_less_eq)
  qed
  have lo: "pow2 (d - 1) < x"
  proof -
    have "pow2 (d - 1) * of_int b < pow2 (d - 1) * pow2 lb"
      using rb(2) pow2_pos[of "d - 1"] by (simp add: mult_strict_left_mono)
    also have "\<dots> = pow2 (la - 1)" by (simp add: d_def pow2_add[symmetric])
    also have "\<dots> \<le> of_int a" by (rule ra)
    finally show ?thesis using bpos unfolding x by (simp add: pos_less_divide_eq)
  qed
  have fl: "floor_log2 x = (if pow2 d \<le> x then d else d - 1)"
    by (simp add: floor_log2_def q la_def lb_def d_def)
  show "pow2 (floor_log2 x) \<le> x" using lo unfolding fl by auto
  show "x < pow2 (floor_log2 x + 1)" using up unfolding fl by auto
qed


lemma binary64_pos_eq:
  assumes "0 < x"
  shows "binary64 x = of_int (round_half_even (x / pow2 (floor_log2 x - 52))) * pow2 (floor_log2 x - 52)"
  using assms by (simp add: binary64_def Let_def abs_of_pos)

lemma binary64_pos_bounds:
  assumes "0 < x"
  shows "pow2 (floor_log2 x) \<le> binary64 x" and "binary64 x \<le> pow2 (floor_log2 x + 1)"
proof -
  define e where "e = floor_log2 x"
  define u where "u = pow2 (e - 52)"
  have u: "0 < u" by (simp add: u_def pow2_pos)
  have p52: "pow2 e = of_int (2 ^ 52) * u" "pow2 (e + 1) = of_int (2 ^ 53) * u"
    unfolding u_def by (simp_all add: pow2_powi power_int_diff power_int_add)
  from floor_log2_bounds[OF assms] have "of_int (2 ^ 52) * u \<le> x" "x < of_int (2 ^ 53) * u"
    unfolding e_def[symmetric] p52 by auto
  then have q: "of_int (2 ^ 52) \<le> x / u" "x / u \<le> of_int (2 ^ 53)"
    using u by (simp_all add: pos_le_divide_eq pos_divide_le_eq)
  from round_half_even_ge[OF q(1)] round_half_even_le[OF q(2)]
  have "(of_int (2 ^ 52) :: rat) \<le> of_int (round_half_even (x / u))"
       "(of_int (round_half_even (x / u)) :: rat) \<le> of_int (2 ^ 53)"
    by (simp_all only: of_int_le_iff)
  then have "of_int (2 ^ 52) * u \<le> of_int (round_half_even (x / u)) * u"
            "of_int (round_half_even (x / u)) * u \<le> of_int (2 ^ 53) * u"
    using u by (simp_all only: mult_le_cancel_right_pos)
  then show "pow2 (floor_log2 x) \<le> binary64 x" "binary64 x \<le> pow2 (floor_log2 x + 1)"
    unfolding binary64_pos_eq[OF assms] e_def[symmetric] u_def[symmetric] p52 by auto
qed

lemma binary64_mono_pos:
  assumes "0 < x" "x \<le> y"
  shows "binary64 x \<le> binary64 y"
proof -
  have y: "0 < y" using assms by simp
  define ex where "ex = floor_log2 x"
  define ey where "ey = floor_log2 y"
  from floor_log2_bounds[OF assms(1)] floor_log2_bounds[OF y] assms(2)
  have "pow2 ex < pow2 (ey + 1)" unfolding ex_def ey_def by linarith
  then have le: "ex \<le> ey" by (auto dest: pow2_less_imp)
  show ?thesis
  proof (cases "ex = ey")
    case True
    have u: "0 < pow2 (ey - 52)" by (rule pow2_pos)
    have "x / pow2 (ey - 52) \<le> y / pow2 (ey - 52)"
      using assms(2) u by (simp add: divide_right_mono)
    from round_half_even_mono[OF this] u show ?thesis
      unfolding binary64_pos_eq[OF assms(1)] binary64_pos_eq[OF y]
        ex_def[symmetric] ey_def[symmetric] True
      by (simp only: mult_le_cancel_right_pos of_int_le_iff)
  next
    case False
    with le have "ex + 1 \<le> ey" by simp
    then have "pow2 (ex + 1) \<le> pow2 ey" by (rule pow2_mono)
    with binary64_pos_bounds(2)[OF assms(1)] binary64_pos_bounds(1)[OF y]
    show ?thesis unfolding ex_def ey_def by linarith
  qed
qed

lemma binary64_minus: "binary64 (- x) = - binary64 x"
  by (simp add: binary64_def Let_def sgn_minus)

lemma binary64_nonneg: "0 \<le> x \<Longrightarrow> 0 \<le> binary64 x"
proof (cases "x = 0")
  case True then show ?thesis by (simp add: binary64_def)
next
  case False
  assume "0 \<le> x"
  with False have "0 < x" by simp
  from binary64_pos_bounds(1)[OF this] pow2_pos[of "floor_log2 x"] show ?thesis by linarith
qed

lemma binary64_mono:
  assumes "x \<le> y"
  shows "binary64 x \<le> binary64 y"
proof -
  consider "0 < x" | "x \<le> 0" "0 \<le> y" | "y < 0" using assms by linarith
  then show ?thesis
  proof cases
    case 1
    then show ?thesis using assms by (rule binary64_mono_pos)
  next
    case 2
    have "binary64 x \<le> 0" using binary64_nonneg[of "- x"] 2(1) by (simp add: binary64_minus)
    moreover have "0 \<le> binary64 y" using 2(2) by (rule binary64_nonneg)
    ultimately show ?thesis by simp
  next
    case 3
    have "binary64 (- y) \<le> binary64 (- x)" using 3 assms by (intro binary64_mono_pos) auto
    then show ?thesis by (simp add: binary64_minus)
  qed
qed















text \<open>
  The comparison of \<open>total_seconds\<close> with 300 is the exact comparison of the microseconds.
\<close>

lemma total_seconds_less_300: "total_seconds d < 300 \<longleftrightarrow> d < 300 * usec_per_second"
proof
  assume a: "total_seconds d < 300"
  show "d < 300 * usec_per_second"
  proof (rule ccontr)
    assume "\<not> d < 300 * usec_per_second"
    then have "(300000000 :: int) \<le> d"
      by (simp add: usec_per_second_def)
    then have "(300000000 :: rat) \<le> of_int d"
      by (metis of_int_le_iff of_int_numeral)
    then have "(300 :: rat) \<le> of_int d / of_int usec_per_second"
      by (simp add: usec_per_second_def pos_le_divide_eq)
    from binary64_mono[OF this] have "binary64 300 \<le> total_seconds d"
      by (simp add: total_seconds_def)
    moreover have "binary64 300 = 300" by code_simp
    ultimately show False using a by simp
  qed
next
  assume "d < 300 * usec_per_second"
  then have "d \<le> 299999999" by (simp add: usec_per_second_def)
  then have "(of_int d :: rat) \<le> 299999999" by (metis of_int_le_iff of_int_numeral)
  then have "(of_int d :: rat) / of_int usec_per_second \<le> 299999999 / 1000000"
    by (simp add: usec_per_second_def divide_right_mono)
  from binary64_mono[OF this] have "total_seconds d \<le> binary64 (299999999 / 1000000)"
    by (simp add: total_seconds_def)
  moreover have "binary64 (299999999 / 1000000) < 300" by code_simp
  ultimately show "total_seconds d < 300" by simp
qed

lemma interval_guard_exact:
  "interval_guard t (Some r) \<longleftrightarrow> t - timestamp r < 300 * usec_per_second"
  by (simp add: interval_guard_def total_seconds_less_300)

section \<open>Properties of the plausibility check\<close>






lemma sort_two: "sort [h1, h2 :: rat] = [min h1 h2, max h1 h2]"
  by (auto simp: min_def max_def)




section \<open>The period start\<close>

lemma usec_per_day_pos: "0 < usec_per_day"
  by (simp add: usec_per_day_def usec_per_second_def)

lemma noon_bounds: "0 \<le> noon" "noon < usec_per_day"
  by (simp_all add: noon_def usec_per_day_def usec_per_second_def)

lemma day_div: "0 \<le> r \<Longrightarrow> r < usec_per_day \<Longrightarrow> (d * usec_per_day + r) div usec_per_day = d"
  using usec_per_day_pos by (simp add: div_pos_pos_trivial)

lemma day_mod: "0 \<le> r \<Longrightarrow> r < usec_per_day \<Longrightarrow> (d * usec_per_day + r) mod usec_per_day = r"
  using usec_per_day_pos by (simp add: mod_pos_pos_trivial)

lemma day_le:
  assumes "d' * usec_per_day + r' \<le> d * usec_per_day + r" "0 \<le> r'" "r < usec_per_day"
  shows "d' \<le> d"
proof (rule ccontr)
  assume "\<not> d' \<le> d"
  then have "d + 1 \<le> d'" by simp
  then have "(d + 1) * usec_per_day \<le> d' * usec_per_day"
    using usec_per_day_pos by (simp add: mult_right_mono)
  with assms show False by (simp add: algebra_simps)
qed

lemma period_start_closed_form:
  "(let current_weekday = weekday current_time;
          days_since_wednesday = (current_weekday - 2) mod 7;
          period_start = current_time - timedelta_days days_since_wednesday;
          period_start = replace_noon period_start
      in if current_time < period_start then period_start - timedelta_days 7
         else period_start) = anchor_of current_time"
proof -
  define d where "d = current_time div usec_per_day"
  define r where "r = current_time mod usec_per_day"
  define k where "k = (d + 1) mod 7"
  have t: "current_time = d * usec_per_day + r"
    by (simp add: d_def r_def)
  have r: "0 \<le> r" "r < usec_per_day"
    using usec_per_day_pos by (simp_all add: r_def)
  have k: "0 \<le> k" "k < 7" by (simp_all add: k_def)
  have wk: "(weekday current_time - 2) mod 7 = k"
    unfolding weekday_def d_def[symmetric] k_def by presburger
  have sub: "current_time - timedelta_days k = (d - k) * usec_per_day + r"
    by (simp add: t timedelta_days_def algebra_simps)
  have rep: "replace_noon (current_time - timedelta_days k) = (d - k) * usec_per_day + noon"
    unfolding sub replace_noon_def noon_def[symmetric] using day_div[OF r] by simp
  have cmp: "current_time < (d - k) * usec_per_day + noon \<longleftrightarrow> k = 0 \<and> r < noon"
  proof (cases "k = 0")
    case True
    then show ?thesis by (simp add: t)
  next
    case False
    with k have "1 \<le> k" by simp
    then have "1 * usec_per_day \<le> k * usec_per_day"
      using usec_per_day_pos by (intro mult_right_mono) simp_all
    moreover have "(d - k) * usec_per_day = d * usec_per_day - k * usec_per_day"
      by (simp add: left_diff_distrib)
    ultimately have "(d - k) * usec_per_day + noon \<le> d * usec_per_day"
      using noon_bounds by linarith
    with r False show ?thesis unfolding t by linarith
  qed
  have seven: "(d - k) * usec_per_day + noon - timedelta_days 7 = (d - k - 7) * usec_per_day + noon"
    by (simp add: timedelta_days_def algebra_simps)
  show ?thesis
    unfolding Let_def wk rep cmp seven anchor_of_def d_def[symmetric] r_def[symmetric] k_def[symmetric]
    by simp
qed

lemma calc_period_start_eq: "calc_period_start t = anchor_of t"
  unfolding calc_period_start_def by (rule period_start_closed_form)

lemma stats_period_start_eq: "stats_period_start t = anchor_of t"
  unfolding stats_period_start_def by (rule period_start_closed_form)


lemma is_anchor_iff: "is_anchor q \<longleftrightarrow> (\<exists>m. q = (7 * m + 6) * usec_per_day + noon)"
proof
  assume a: "is_anchor q"
  define d where "d = q div usec_per_day"
  have q: "q = d * usec_per_day + noon"
    using a unfolding is_anchor_def noon_def[symmetric] d_def
    by (metis mult.commute mult_div_mod_eq)
  have "(d + 3) mod 7 = 2" using a by (simp add: is_anchor_def weekday_def d_def)
  then have "\<exists>m. d = 7 * m + 6" by presburger
  then obtain m where "d = 7 * m + 6" by blast
  with q show "\<exists>m. q = (7 * m + 6) * usec_per_day + noon" by blast
next
  assume "\<exists>m. q = (7 * m + 6) * usec_per_day + noon"
  then obtain m where q: "q = (7 * m + 6) * usec_per_day + noon" by blast
  have dv: "q div usec_per_day = 7 * m + 6" and md: "q mod usec_per_day = noon"
    unfolding q using day_div[OF noon_bounds] day_mod[OF noon_bounds] by simp_all
  have "(7 * m + 6 + 3) mod 7 = (2::int)" by presburger
  then show "is_anchor q"
    unfolding is_anchor_def weekday_def noon_def[symmetric] dv md by simp
qed

lemma anchor_of_is_anchor: "is_anchor (anchor_of t)"
proof -
  define d where "d = t div usec_per_day"
  define k where "k = (d + 1) mod 7"
  have "\<exists>m. d - k = 7 * m + 6" unfolding k_def by presburger
  moreover have "k = 0 \<Longrightarrow> \<exists>m. d - 7 = 7 * m + 6" unfolding k_def by presburger
  ultimately show ?thesis
    unfolding is_anchor_iff anchor_of_def Let_def d_def[symmetric] k_def[symmetric]
    by (auto)
qed

lemma anchor_of_le: "anchor_of t \<le> t"
proof -
  define d where "d = t div usec_per_day"
  define r where "r = t mod usec_per_day"
  define k where "k = (d + 1) mod 7"
  have t: "t = d * usec_per_day + r" by (simp add: d_def r_def)
  have r: "0 \<le> r" "r < usec_per_day" using usec_per_day_pos by (simp_all add: r_def)
  have k: "0 \<le> k" "k < 7" by (simp_all add: k_def)
  have a: "(d - 7) * usec_per_day + noon \<le> t"
    using r noon_bounds usec_per_day_pos by (simp add: t algebra_simps)
  have b: "(d - k) * usec_per_day + noon \<le> t" if "\<not> (k = 0 \<and> r < noon)"
  proof (cases "k = 0")
    case True
    with that show ?thesis by (simp add: t)
  next
    case False
    with k have "1 \<le> k" by simp
    then have "1 * usec_per_day \<le> k * usec_per_day"
      using usec_per_day_pos by (intro mult_right_mono) simp_all
    moreover have "(d - k) * usec_per_day = d * usec_per_day - k * usec_per_day"
      by (simp add: left_diff_distrib)
    ultimately show ?thesis using r noon_bounds unfolding t by linarith
  qed
  show ?thesis
    unfolding anchor_of_def Let_def d_def[symmetric] r_def[symmetric] k_def[symmetric]
    using a b by auto
qed

lemma anchor_of_latest:
  assumes "is_anchor q" "q \<le> t"
  shows "q \<le> anchor_of t"
proof -
  define d where "d = t div usec_per_day"
  define r where "r = t mod usec_per_day"
  define k where "k = (d + 1) mod 7"
  have t: "t = d * usec_per_day + r" by (simp add: d_def r_def)
  have r: "0 \<le> r" "r < usec_per_day" using usec_per_day_pos by (simp_all add: r_def)
  from assms(1) obtain m where q: "q = (7 * m + 6) * usec_per_day + noon"
    unfolding is_anchor_iff by blast
  have le: "7 * m + 6 \<le> d"
    using assms(2) unfolding q t using day_le noon_bounds(1) r(2) by blast
  have mono: "\<And>a b. a \<le> b \<Longrightarrow> a * usec_per_day + noon \<le> b * usec_per_day + noon"
    using usec_per_day_pos by (simp add: mult_right_mono)
  show ?thesis
  proof (cases "k = 0 \<and> r < noon")
    case True
    have "7 * m + 6 \<noteq> d"
    proof
      assume "7 * m + 6 = d"
      with assms(2) True show False by (simp add: q t)
    qed
    with le True have "7 * m + 6 \<le> d - 7" unfolding k_def by presburger
    then have "q \<le> (d - 7) * usec_per_day + noon" unfolding q by (rule mono)
    with True show ?thesis
      unfolding anchor_of_def Let_def d_def[symmetric] r_def[symmetric] k_def[symmetric] by simp
  next
    case False
    from le have "7 * m + 6 \<le> d - k" unfolding k_def by presburger
    then have "q \<le> (d - k) * usec_per_day + noon" unfolding q by (rule mono)
    with False show ?thesis
      unfolding anchor_of_def Let_def d_def[symmetric] r_def[symmetric] k_def[symmetric] by auto
  qed
qed

text \<open>
  Claim C4. For every current time \<open>t\<close>, the period start computed by the sampling engine
  and by the period aggregator is the most recent instant at or before \<open>t\<close> that is a
  Wednesday at 12:00:00 UTC, and the two computations agree. On a Wednesday at 11:59:59 it is
  noon of the Wednesday seven days earlier; on a Wednesday at 12:00:01 it is noon of the same
  day.
\<close>

theorem period_start_most_recent_anchor:
  "is_anchor (calc_period_start t)
   \<and> calc_period_start t \<le> t
   \<and> (\<forall>q. is_anchor q \<and> q \<le> t \<longrightarrow> q \<le> calc_period_start t)
   \<and> stats_period_start t = calc_period_start t
   \<and> (weekday t = 2 \<and> t mod usec_per_day = noon - usec_per_second \<longrightarrow>
          calc_period_start t = t + usec_per_second - timedelta_days 7)
   \<and> (weekday t = 2 \<and> t mod usec_per_day = noon + usec_per_second \<longrightarrow>
          calc_period_start t = t - usec_per_second)"
proof (intro conjI allI impI)
  show "is_anchor (calc_period_start t)"
    by (simp add: calc_period_start_eq anchor_of_is_anchor)
  show "calc_period_start t \<le> t"
    by (simp add: calc_period_start_eq anchor_of_le)
  show "q \<le> calc_period_start t" if "is_anchor q \<and> q \<le> t" for q
    using that by (simp add: calc_period_start_eq anchor_of_latest)
  show "stats_period_start t = calc_period_start t"
    by (simp add: calc_period_start_eq stats_period_start_eq)
next
  assume a: "weekday t = 2 \<and> t mod usec_per_day = noon - usec_per_second"
  define d where "d = t div usec_per_day"
  have t: "t = d * usec_per_day + (noon - usec_per_second)"
    using a unfolding d_def by (metis mult.commute mult_div_mod_eq)
  from a have "(d + 3) mod 7 = 2"
    by (simp add: weekday_def d_def)
  then have k: "(d + 1) mod 7 = 0"
    by presburger
  have lt: "noon - usec_per_second < noon"
    by (simp add: usec_per_second_def)
  show "calc_period_start t = t + usec_per_second - timedelta_days 7"
    unfolding calc_period_start_eq anchor_of_def Let_def d_def[symmetric]
    using a k lt by (simp add: t timedelta_days_def algebra_simps)
next
  assume a: "weekday t = 2 \<and> t mod usec_per_day = noon + usec_per_second"
  define d where "d = t div usec_per_day"
  have t: "t = d * usec_per_day + (noon + usec_per_second)"
    using a unfolding d_def by (metis mult.commute mult_div_mod_eq)
  from a have "(d + 3) mod 7 = 2"
    by (simp add: weekday_def d_def)
  then have k: "(d + 1) mod 7 = 0"
    by presburger
  have lt: "\<not> noon + usec_per_second < noon"
    by (simp add: usec_per_second_def)
  show "calc_period_start t = t - usec_per_second"
    unfolding calc_period_start_eq anchor_of_def Let_def d_def[symmetric]
    using a k lt by (simp add: t)
qed

text \<open>
  The instances: 2024-01-03 (a Wednesday) at 11:59:59 and at 12:00:01 UTC, and the anchor
  2023-12-20 12:00:00 UTC as an earlier Wednesday noon.
\<close>

theorem period_start_most_recent_anchor_witness:
  "weekday 1704283199000000 = 2
   \<and> 1704283199000000 mod usec_per_day = noon - usec_per_second
   \<and> calc_period_start 1704283199000000 = 1703678400000000
   \<and> is_anchor 1703073600000000
   \<and> 1703073600000000 \<le> (1704283199000000 :: int)
   \<and> 1703073600000000 \<le> calc_period_start 1704283199000000
   \<and> weekday 1704283201000000 = 2
   \<and> 1704283201000000 mod usec_per_day = noon + usec_per_second
   \<and> calc_period_start 1704283201000000 = 1704283200000000"
  using period_start_most_recent_anchor [of 1704283199000000]
    period_start_most_recent_anchor [of 1704283201000000]
  by (simp add: weekday_def is_anchor_def usec_per_day_def usec_per_second_def noon_def
      timedelta_days_def)

section \<open>Effects of the event log\<close>

lemma samples_log [simp]: "samples (log_network_stats_event clk e m d w) = samples w"
  by (simp add: log_network_stats_event_def now_def Let_def)

lemma reads_log [simp]: "reads (log_network_stats_event clk e m d w) = Suc (reads w)"
  by (simp add: log_network_stats_event_def now_def Let_def)

lemma logs_log:
  "logs (log_network_stats_event clk e m d w) =
     cleanup_old_logs (log_period_start (clk (reads w))) (logs w)
       @ [\<lparr>timestamp = clk (reads w), period_start = log_period_start (clk (reads w)),
            event_type = e, message = m, data = d\<rparr>]"
  by (simp add: log_network_stats_event_def now_def Let_def)

lemma last_logs_log:
  "last (logs (log_network_stats_event clk e m d w)) =
     \<lparr>timestamp = clk (reads w), period_start = log_period_start (clk (reads w)),
      event_type = e, message = m, data = d\<rparr>"
  by (simp add: logs_log)

lemma set_delete_older: "set (delete_older t docs) = {d \<in> set docs. t \<le> timestamp d}"
  by (auto simp: delete_older_def)

lemma set_cleanup_old_logs: "set (cleanup_old_logs p entries) \<subseteq> set entries"
  by (auto simp: cleanup_old_logs_def Let_def set_delete_older split: option.splits)

lemma set_cleanup_old_records: "set (cleanup_old_records p l docs) \<subseteq> set docs"
  by (auto simp: cleanup_old_records_def Let_def set_delete_older split: option.splits)

section \<open>Validation and commit\<close>

lemma check_qli_result:
  "check_qli clk (qli h) \<lparr>qli = True, apool = True, solutions = True, minerlab = True\<rparr> w = (q, v, w')
   \<Longrightarrow> q = stored_qli h (samples w)
       \<and> v = \<lparr>qli = (qli h > 0 \<or> recent_records (samples w) \<noteq> []), apool = True, solutions = True, minerlab = True\<rparr>
       \<and> samples w' = samples w"
  by (auto simp: check_qli_def stored_qli_def Let_def split: if_splits)

lemma check_pools_result:
  "check_pools clk h v w = (v', w')
   \<Longrightarrow> v' = v\<lparr>apool := apool v \<and> apool h > 0, solutions := solutions v \<and> solutions h > 0,
              minerlab := minerlab v \<and> minerlab h > 0\<rparr>
       \<and> samples w' = samples w"
  by (auto simp: check_pools_def Let_def split: if_splits)

lemma validate_and_commit_invalid:
  assumes "\<not> all_values (validation_map h (samples w))"
  shows "samples (validate_and_commit clk t l i h w) = samples w"
    and "event_type (last (logs (validate_and_commit clk t l i h w))) = ''validation''"
    and "message (last (logs (validate_and_commit clk t l i h w))) = SkippingAbnormalValues"
    and "data (last (logs (validate_and_commit clk t l i h w))) =
           Some (HashratesAndValidation h (validation_map h (samples w)))"
proof -
  obtain q v w1 where a: "check_qli clk (qli h) \<lparr>qli = True, apool = True, solutions = True, minerlab = True\<rparr> w = (q, v, w1)"
    by (metis prod_cases3)
  obtain v' w2 where b: "check_pools clk h v w1 = (v', w2)"
    by (metis surj_pair)
  note A = check_qli_result[OF a]
  note B = check_pools_result[OF b]
  have v': "v' = validation_map h (samples w)"
    using A B by (simp add: validation_map_def)
  have eq: "validate_and_commit clk t l i h w =
      log_network_stats_event clk ''validation'' SkippingAbnormalValues
                (Some (HashratesAndValidation h v')) w2"
    using assms v' by (simp add: validate_and_commit_def a b)
  show "samples (validate_and_commit clk t l i h w) = samples w"
    using A B by (simp add: eq)
  show "event_type (last (logs (validate_and_commit clk t l i h w))) = ''validation''"
    by (simp add: eq last_logs_log)
  show "message (last (logs (validate_and_commit clk t l i h w))) = SkippingAbnormalValues"
    by (simp add: eq last_logs_log)
  show "data (last (logs (validate_and_commit clk t l i h w))) =
           Some (HashratesAndValidation h (validation_map h (samples w)))"
    by (simp add: eq last_logs_log v')
qed

lemma validate_and_commit_valid:
  assumes "all_values (validation_map h (samples w))"
  shows "samples (validate_and_commit clk t l i h w) =
           cleanup_old_records (calc_period_start t) l (samples w)
             @ [\<lparr>timestamp = t, period_start = calc_period_start t,
                  qli_hashrate = stored_qli h (samples w),
                  apool_hashrate = apool h, solutions_hashrate = solutions h,
                  minerlab_hashrate = minerlab h, was_idle = i\<rparr>]"
    and "event_type (last (logs (validate_and_commit clk t l i h w))) = ''success''"
    and "data (last (logs (validate_and_commit clk t l i h w))) =
           Some (HashratesAndValidation h (validation_map h (samples w)))"
proof -
  obtain q v w1 where a: "check_qli clk (qli h) \<lparr>qli = True, apool = True, solutions = True, minerlab = True\<rparr> w = (q, v, w1)"
    by (metis prod_cases3)
  obtain v' w2 where b: "check_pools clk h v w1 = (v', w2)"
    by (metis surj_pair)
  note A = check_qli_result[OF a]
  note B = check_pools_result[OF b]
  have v': "v' = validation_map h (samples w)"
    using A B by (simp add: validation_map_def)
  have eq: "validate_and_commit clk t l i h w = commit_record clk t l i q h v' w2"
    using assms v' by (simp add: validate_and_commit_def a b)
  show "samples (validate_and_commit clk t l i h w) =
           cleanup_old_records (calc_period_start t) l (samples w)
             @ [\<lparr>timestamp = t, period_start = calc_period_start t,
                  qli_hashrate = stored_qli h (samples w),
                  apool_hashrate = apool h, solutions_hashrate = solutions h,
                  minerlab_hashrate = minerlab h, was_idle = i\<rparr>]"
    using A B by (simp add: eq commit_record_def Let_def)
  show "event_type (last (logs (validate_and_commit clk t l i h w))) = ''success''"
    by (simp add: eq commit_record_def Let_def last_logs_log)
  show "data (last (logs (validate_and_commit clk t l i h w))) =
           Some (HashratesAndValidation h (validation_map h (samples w)))"
    by (simp add: eq commit_record_def Let_def last_logs_log v')
qed

section \<open>The paths of a tick\<close>

lemma calculate_passes:
  assumes "passes_guards P clk td w h"
  shows "\<exists>i. get_idle td = Inr i \<and> \<not> truthy i \<and>
           calculate_network_stats P clk td w =
             validate_and_commit clk (clk (reads w)) (find_one_latest (samples w)) i h
               (w\<lparr>reads := Suc (reads w)\<rparr>)"
  using assms
  by (auto simp: passes_guards_def calculate_network_stats_def now_def Let_def
      split: sum.splits)

lemma recovery_guard_interval: "recovery_guard t l \<Longrightarrow> interval_guard t l"
  by (auto simp: recovery_guard_def interval_guard_def split: option.splits)

lemma calculate_skips:
  assumes "interval_guard (clk (reads w)) (find_one_latest (samples w))
           \<or> snapshot_idle td
           \<or> recovery_guard (clk (reads w)) (find_one_latest (samples w))"
  shows "\<exists>m. calculate_network_stats P clk td w =
           log_network_stats_event clk ''skip'' m None (w\<lparr>reads := Suc (reads w)\<rparr>)"
  using assms
  by (auto simp: calculate_network_stats_def snapshot_idle_def now_def Let_def
      dest: recovery_guard_interval split: sum.splits)

section \<open>Validation at write time\<close>





section \<open>Guards\<close>

lemma find_one_latest_Some:
  assumes "find_one_latest docs = Some r"
  shows "r \<in> set docs" and "\<forall>d \<in> set docs. timestamp d \<le> timestamp r"
proof -
  from assms obtain rest where s: "sort_key (\<lambda>d. - timestamp d) docs = r # rest"
    by (auto simp: find_one_latest_def sort_desc_def split: list.splits)
  have "set (r # rest) = set docs"
    using s by (metis set_sort)
  then show "r \<in> set docs" by auto
  have "sorted (map (\<lambda>d. - timestamp d) (r # rest))"
    using s by (metis sorted_sort_key)
  then have "\<forall>d \<in> set rest. timestamp d \<le> timestamp r" by auto
  with \<open>set (r # rest) = set docs\<close> show "\<forall>d \<in> set docs. timestamp d \<le> timestamp r"
    by auto
qed

lemma find_one_latest_None: "find_one_latest docs = None \<longleftrightarrow> docs = []"
proof -
  have "sort_key (\<lambda>d. - timestamp d) docs = [] \<longleftrightarrow> docs = []"
    by (metis length_0_conv length_sort)
  then show ?thesis
    by (auto simp: find_one_latest_def sort_desc_def split: list.splits)
qed

text \<open>
  Claim C5, as the code has it. If a previous Sample is less than 300 seconds old, or the
  snapshot reports idle, or the previous Sample is marked idle and less than 300 seconds old,
  the tick logs a \<open>skip\<close> event and leaves the Samples as they are. The log collection
  receives the \<open>skip\<close> entry after the event log's own retention step, which removes
  nothing unless the new entry opens a period newer than that of the latest entry.
\<close>

theorem guards_skip:
  assumes "interval_guard (clk (reads w)) (find_one_latest (samples w))
           \<or> snapshot_idle tool_data
           \<or> recovery_guard (clk (reads w)) (find_one_latest (samples w))"
  shows "let w' = calculate_network_stats P clk tool_data w;
             p = log_period_start (clk (Suc (reads w)))
         in samples w' = samples w
            \<and> event_type (last (logs w')) = ''skip''
            \<and> butlast (logs w') = cleanup_old_logs p (logs w)
            \<and> set (butlast (logs w')) \<subseteq> set (logs w)
            \<and> ((\<forall>l. find_one_latest (logs w) = Some l \<longrightarrow> p \<le> period_start l) \<longrightarrow>
                  butlast (logs w') = logs w)"
proof -
  from calculate_skips[of clk w tool_data P] assms obtain m where
    eq: "calculate_network_stats P clk tool_data w =
           log_network_stats_event clk ''skip'' m None (w\<lparr>reads := Suc (reads w)\<rparr>)"
    by blast
  have keep: "cleanup_old_logs p (logs w) = logs w"
    if "\<forall>l. find_one_latest (logs w) = Some l \<longrightarrow> p \<le> period_start l" for p
    using that by (auto simp: cleanup_old_logs_def Let_def split: option.splits)
  show ?thesis
    unfolding Let_def eq
    using set_cleanup_old_logs keep by (simp add: logs_log)
qed

theorem guards_skip_witness:
  "snapshot_idle (snapshot (JBool True) (JInt 100) (JInt 100) (JInt 100) (JInt 100))
   \<and> samples (calculate_network_stats no_parse clock_C
        (snapshot (JBool True) (JInt 100) (JInt 100) (JInt 100) (JInt 100)) world_two_periods)
       = samples world_two_periods
   \<and> event_type (last (logs (calculate_network_stats no_parse clock_C
        (snapshot (JBool True) (JInt 100) (JInt 100) (JInt 100) (JInt 100)) world_two_periods)))
       = ''skip''
   \<and> interval_guard (clock_200s (reads (world_one_sample\<lparr>logs := [entry_A]\<rparr>)))
        (find_one_latest (samples (world_one_sample\<lparr>logs := [entry_A]\<rparr>)))
   \<and> butlast (logs (calculate_network_stats no_parse clock_200s
        (snapshot (JBool False) (JInt 100) (JInt 100) (JInt 100) (JInt 100))
        (world_one_sample\<lparr>logs := [entry_A]\<rparr>)))
       = [entry_A]"
proof -
  have idle: "snapshot_idle (snapshot (JBool True) (JInt 100) (JInt 100) (JInt 100) (JInt 100))"
    by code_simp
  have guard: "interval_guard (clock_200s (reads (world_one_sample\<lparr>logs := [entry_A]\<rparr>)))
        (find_one_latest (samples (world_one_sample\<lparr>logs := [entry_A]\<rparr>)))"
    by code_simp
  have latest: "find_one_latest (logs (world_one_sample\<lparr>logs := [entry_A]\<rparr>)) = Some entry_A"
    by code_simp
  have same_period: "log_period_start (clock_200s (Suc (reads (world_one_sample\<lparr>logs := [entry_A]\<rparr>))))
       \<le> period_start entry_A"
    by code_simp
  have first: "samples (calculate_network_stats no_parse clock_C
        (snapshot (JBool True) (JInt 100) (JInt 100) (JInt 100) (JInt 100)) world_two_periods)
       = samples world_two_periods
     \<and> event_type (last (logs (calculate_network_stats no_parse clock_C
        (snapshot (JBool True) (JInt 100) (JInt 100) (JInt 100) (JInt 100)) world_two_periods)))
       = ''skip''"
    using guards_skip [of clock_C world_two_periods
        "snapshot (JBool True) (JInt 100) (JInt 100) (JInt 100) (JInt 100)" no_parse] idle
    unfolding Let_def by blast
  have all: "\<forall>l. find_one_latest (logs (world_one_sample\<lparr>logs := [entry_A]\<rparr>)) = Some l \<longrightarrow>
       log_period_start (clock_200s (Suc (reads (world_one_sample\<lparr>logs := [entry_A]\<rparr>))))
       \<le> period_start l"
    using latest same_period by simp
  have "butlast (logs (calculate_network_stats no_parse clock_200s
        (snapshot (JBool False) (JInt 100) (JInt 100) (JInt 100) (JInt 100))
        (world_one_sample\<lparr>logs := [entry_A]\<rparr>)))
       = logs (world_one_sample\<lparr>logs := [entry_A]\<rparr>)"
    using guards_skip [of clock_200s "world_one_sample\<lparr>logs := [entry_A]\<rparr>"
        "snapshot (JBool False) (JInt 100) (JInt 100) (JInt 100) (JInt 100)" no_parse]
      guard all
    unfolding Let_def by blast
  then have second: "butlast (logs (calculate_network_stats no_parse clock_200s
        (snapshot (JBool False) (JInt 100) (JInt 100) (JInt 100) (JInt 100))
        (world_one_sample\<lparr>logs := [entry_A]\<rparr>)))
       = [entry_A]"
    by simp
  show ?thesis
    using idle first guard second by blast
qed

text \<open>
  Claim C5 as stated fails where it says that no stored record is deleted: with log entries
  of two earlier periods in the store, a tick of the third period that finds the snapshot
  idle logs \<open>skip\<close>, and the log entry of the first period is gone.
\<close>

theorem guards_skip_deletes_logs_counterexample:
  "snapshot_idle (snapshot (JBool True) (JInt 100) (JInt 100) (JInt 100) (JInt 100))
   \<and> logs world_two_periods = [entry_A, entry_B]
   \<and> logs (calculate_network_stats no_parse clock_C
        (snapshot (JBool True) (JInt 100) (JInt 100) (JInt 100) (JInt 100)) world_two_periods)
       = [entry_B,
          \<lparr>timestamp = 1166400001001, period_start = anchor_C, event_type = ''skip'',
           message = MiningIsIdleAt 1166400001000, data = None\<rparr>]"
  by code_simp

section \<open>Retention\<close>

text \<open>
  Claim C6. When a tick that reaches the rollover check computes a period start strictly
  newer than the \<open>period_start\<close> of the previous Sample, exactly the Samples with a
  timestamp before that \<open>period_start\<close> are deleted, the others are kept, and the new
  Sample is appended after the deletion. The event log does the same with its entries and
  the \<open>period_start\<close> of its latest entry.
\<close>

theorem rollover_purge:
  "(passes_guards P clk tool_data w h
      \<and> all_values (validation_map h (samples w))
      \<and> find_one_latest (samples w) = Some prev
      \<and> period_start prev < calc_period_start (clk (reads w))
    \<longrightarrow> (\<exists>record. samples (calculate_network_stats P clk tool_data w) =
            filter (\<lambda>d. period_start prev \<le> timestamp d) (samples w) @ [record]
            \<and> timestamp record = clk (reads w)
            \<and> period_start record = calc_period_start (clk (reads w))))
   \<and> (find_one_latest (logs w) = Some l
      \<and> period_start l < log_period_start (clk (reads w))
    \<longrightarrow> (\<exists>entry. logs (log_network_stats_event clk e m d w) =
            filter (\<lambda>x. period_start l \<le> timestamp x) (logs w) @ [entry]
            \<and> timestamp entry = clk (reads w)
            \<and> period_start entry = log_period_start (clk (reads w))))"
proof (intro conjI impI)
  assume a: "passes_guards P clk tool_data w h
      \<and> all_values (validation_map h (samples w))
      \<and> find_one_latest (samples w) = Some prev
      \<and> period_start prev < calc_period_start (clk (reads w))"
  from a calculate_passes[of P clk tool_data w h] obtain i where
    eq: "calculate_network_stats P clk tool_data w =
           validate_and_commit clk (clk (reads w)) (find_one_latest (samples w)) i h
             (w\<lparr>reads := Suc (reads w)\<rparr>)"
    by blast
  have c: "cleanup_old_records (calc_period_start (clk (reads w))) (Some prev) (samples w)
        = filter (\<lambda>d. period_start prev \<le> timestamp d) (samples w)"
    using a by (simp add: cleanup_old_records_def delete_older_def not_less)
  show "\<exists>record. samples (calculate_network_stats P clk tool_data w) =
            filter (\<lambda>d. period_start prev \<le> timestamp d) (samples w) @ [record]
            \<and> timestamp record = clk (reads w)
            \<and> period_start record = calc_period_start (clk (reads w))"
    using validate_and_commit_valid(1)[of h "w\<lparr>reads := Suc (reads w)\<rparr>" clk "clk (reads w)" "Some prev" i] a c
    unfolding eq by simp
next
  assume a: "find_one_latest (logs w) = Some l
      \<and> period_start l < log_period_start (clk (reads w))"
  then have "cleanup_old_logs (log_period_start (clk (reads w))) (logs w)
        = filter (\<lambda>x. period_start l \<le> timestamp x) (logs w)"
    by (simp add: cleanup_old_logs_def delete_older_def not_less)
  then show "\<exists>entry. logs (log_network_stats_event clk e m d w) =
            filter (\<lambda>x. period_start l \<le> timestamp x) (logs w) @ [entry]
            \<and> timestamp entry = clk (reads w)
            \<and> period_start entry = log_period_start (clk (reads w))"
    by (simp add: logs_log)
qed

theorem rollover_purge_witness:
  "passes_guards no_parse clock_C
      (snapshot (JBool False) (JInt 100) (JInt 100) (JInt 100) (JInt 100)) world_two_periods
      \<lparr>qli = 100, apool = 100, solutions = 100, minerlab = 100\<rparr>
   \<and> all_values (validation_map \<lparr>qli = 100, apool = 100, solutions = 100, minerlab = 100\<rparr>
        (samples world_two_periods))
   \<and> find_one_latest (samples world_two_periods) = Some sample_B
   \<and> period_start sample_B < calc_period_start (clock_C (reads world_two_periods))
   \<and> butlast (samples (calculate_network_stats no_parse clock_C
        (snapshot (JBool False) (JInt 100) (JInt 100) (JInt 100) (JInt 100)) world_two_periods))
       = [sample_B]
   \<and> find_one_latest (logs world_two_periods) = Some entry_B
   \<and> period_start entry_B < log_period_start (clock_C (reads world_two_periods))
   \<and> butlast (logs (log_network_stats_event clock_C ''info'' SuccessfullyRecorded None
        world_two_periods))
       = [entry_B]"
proof -
  have a: "passes_guards no_parse clock_C
      (snapshot (JBool False) (JInt 100) (JInt 100) (JInt 100) (JInt 100)) world_two_periods
      \<lparr>qli = 100, apool = 100, solutions = 100, minerlab = 100\<rparr>"
    by code_simp
  have b: "all_values (validation_map \<lparr>qli = 100, apool = 100, solutions = 100, minerlab = 100\<rparr>
        (samples world_two_periods))"
    by code_simp
  have c: "find_one_latest (samples world_two_periods) = Some sample_B"
    by code_simp
  have d: "period_start sample_B < calc_period_start (clock_C (reads world_two_periods))"
    by code_simp
  have e: "find_one_latest (logs world_two_periods) = Some entry_B"
    by code_simp
  have f: "period_start entry_B < log_period_start (clock_C (reads world_two_periods))"
    by code_simp
  have g: "filter (\<lambda>d. period_start sample_B \<le> timestamp d) (samples world_two_periods)
       = [sample_B]"
    by code_simp
  have h: "filter (\<lambda>x. period_start entry_B \<le> timestamp x) (logs world_two_periods)
       = [entry_B]"
    by code_simp
  show ?thesis
    using rollover_purge [of no_parse clock_C
        "snapshot (JBool False) (JInt 100) (JInt 100) (JInt 100) (JInt 100)" world_two_periods
        "\<lparr>qli = 100, apool = 100, solutions = 100, minerlab = 100\<rparr>" sample_B entry_B
        "''info''" SuccessfullyRecorded None]
      a b c d e f g h
    by auto
qed

section \<open>QLI self-correction\<close>









section \<open>Idle flag of the stored Samples\<close>

lemma samples_validate_and_commit:
  "samples (validate_and_commit clk t l i h w) = samples w
   \<or> (\<exists>record. samples (validate_and_commit clk t l i h w) =
         cleanup_old_records (calc_period_start t) l (samples w) @ [record]
         \<and> was_idle record = i)"
proof (cases "all_values (validation_map h (samples w))")
  case True
  from validate_and_commit_valid(1)[OF True, of clk t l i] show ?thesis by simp
next
  case False
  from validate_and_commit_invalid(1)[OF False] show ?thesis by simp
qed

lemma samples_calculate_cases:
  "samples (calculate_network_stats P clk tool_data w) = samples w
   \<or> (\<exists>record i. samples (calculate_network_stats P clk tool_data w) =
         cleanup_old_records (calc_period_start (clk (reads w)))
           (find_one_latest (samples w)) (samples w) @ [record]
         \<and> was_idle record = i \<and> get_idle tool_data = Inr i \<and> \<not> truthy i)"
proof -
  let ?w1 = "w\<lparr>reads := Suc (reads w)\<rparr>"
  have s: "samples ?w1 = samples w" by simp
  show ?thesis
    using samples_validate_and_commit[of clk "clk (reads w)" "find_one_latest (samples w)" _ _ ?w1]
    unfolding s
    by (auto simp: calculate_network_stats_def now_def Let_def on_exception_def
        split: sum.splits)
qed

lemma inserted_not_idle:
  assumes "s \<in> set (samples (calculate_network_stats P clk tool_data w))"
  shows "s \<in> set (samples w) \<or> (\<not> truthy (was_idle s) \<and> get_idle tool_data = Inr (was_idle s))"
  using samples_calculate_cases[of P clk tool_data w] assms set_cleanup_old_records
  by (auto; blast)

lemma engine_populated_not_idle:
  assumes "engine_populated P clk w"
  shows "\<forall>s \<in> set (samples w). \<not> truthy (was_idle s)"
  using assms
proof (induction rule: engine_populated.induct)
  case (no_samples w)
  then show ?case by simp
next
  case (tick w tool_data)
  then show ?case using inserted_not_idle by blast
next
  case (event w e m d)
  then show ?case by simp
qed

lemma recovery_guard_marked:
  assumes "recovery_guard t (find_one_latest docs)"
  shows "\<exists>s \<in> set docs. truthy (was_idle s)"
proof -
  from assms obtain r where r: "find_one_latest docs = Some r" "truthy (was_idle r)"
    by (auto simp: recovery_guard_def split: option.splits)
  from find_one_latest_Some(1)[OF r(1)] r(2) show ?thesis by blast
qed

text \<open>
  Claim C10, as the code has it. A Sample inserted by \<open>calculate_network_stats\<close> stores the
  idle value of the snapshot. On the commit path that value is false in a condition: it is
  \<open>False\<close> when the snapshot carries a boolean or no idle flag, and it is \<open>None\<close> (or another
  empty value) when the snapshot carries that. In a store populated by this engine no
  Sample is marked idle, so the condition of the recovery guard never holds.
\<close>

theorem never_marked_idle:
  "(\<forall>s \<in> set (samples (calculate_network_stats P clk tool_data w)).
       s \<in> set (samples w)
       \<or> (\<not> truthy (was_idle s) \<and> get_idle tool_data = Inr (was_idle s)
          \<and> ((\<exists>b. get_idle tool_data = Inr (JBool b)) \<longrightarrow> was_idle s = JBool False)))
   \<and> (engine_populated P clk w \<longrightarrow>
        (\<forall>s \<in> set (samples w). \<not> truthy (was_idle s))
        \<and> (\<forall>t. \<not> recovery_guard t (find_one_latest (samples w))))"
proof (intro conjI ballI impI allI)
  fix s assume "s \<in> set (samples (calculate_network_stats P clk tool_data w))"
  from inserted_not_idle[OF this]
  show "s \<in> set (samples w)
       \<or> (\<not> truthy (was_idle s) \<and> get_idle tool_data = Inr (was_idle s)
          \<and> ((\<exists>b. get_idle tool_data = Inr (JBool b)) \<longrightarrow> was_idle s = JBool False))"
    by (cases "was_idle s") auto
next
  fix s assume "engine_populated P clk w" "s \<in> set (samples w)"
  then show "\<not> truthy (was_idle s)" using engine_populated_not_idle by blast
next
  fix t assume "engine_populated P clk w"
  then show "\<not> recovery_guard t (find_one_latest (samples w))"
    using engine_populated_not_idle recovery_guard_marked by blast
qed

theorem never_marked_idle_witness:
  "engine_populated no_parse clock_400s
     (calculate_network_stats no_parse clock_400s
        (snapshot (JBool False) (JInt 100) (JInt 100) (JInt 100) (JInt 100)) world_empty)
   \<and> samples (calculate_network_stats no_parse clock_400s
        (snapshot (JBool False) (JInt 100) (JInt 100) (JInt 100) (JInt 100)) world_empty)
      = [\<lparr>timestamp = 400000000, period_start = anchor_A,
           qli_hashrate = 100, apool_hashrate = 100, solutions_hashrate = 100,
           minerlab_hashrate = 100, was_idle = JBool False\<rparr>]
   \<and> get_idle (snapshot (JBool False) (JInt 100) (JInt 100) (JInt 100) (JInt 100))
      = Inr (JBool False)
   \<and> \<not> recovery_guard 400000001 (find_one_latest (samples (calculate_network_stats no_parse clock_400s
        (snapshot (JBool False) (JInt 100) (JInt 100) (JInt 100) (JInt 100)) world_empty)))"
proof -
  let ?td = "snapshot (JBool False) (JInt 100) (JInt 100) (JInt 100) (JInt 100)"
  have "engine_populated no_parse clock_400s world_empty"
    by (rule engine_populated.no_samples) (simp add: world_empty_def)
  then have r: "engine_populated no_parse clock_400s
     (calculate_network_stats no_parse clock_400s ?td world_empty)"
    by (rule engine_populated.tick)
  have s: "samples (calculate_network_stats no_parse clock_400s ?td world_empty)
      = [\<lparr>timestamp = 400000000, period_start = anchor_A,
           qli_hashrate = 100, apool_hashrate = 100, solutions_hashrate = 100,
           minerlab_hashrate = 100, was_idle = JBool False\<rparr>]"
    by code_simp
  have i: "get_idle ?td = Inr (JBool False)"
    by code_simp
  show ?thesis
    using never_marked_idle [of no_parse clock_400s ?td world_empty]
      never_marked_idle [of no_parse clock_400s ?td
        "calculate_network_stats no_parse clock_400s ?td world_empty"] r s i
    by simp
qed

text \<open>
  Claim C10 as stated fails where it says that \<open>was_idle\<close> is \<open>false\<close>: a snapshot whose idle
  flag is \<open>None\<close>, as the snapshot builder produces it when the source omits the flag,
  passes the idle guard, and the inserted Sample stores \<open>None\<close>.
\<close>

theorem inserted_was_idle_null_counterexample:
  "get_idle (snapshot JNull (JInt 100) (JInt 100) (JInt 100) (JInt 100)) = Inr JNull
   \<and> samples (calculate_network_stats no_parse clock_2400s
        (snapshot JNull (JInt 100) (JInt 100) (JInt 100) (JInt 100)) world_empty)
       = [\<lparr>timestamp = 2400000000, period_start = anchor_A,
            qli_hashrate = 100, apool_hashrate = 100, solutions_hashrate = 100,
            minerlab_hashrate = 100, was_idle = JNull\<rparr>]
   \<and> JNull \<noteq> JBool False"
  by code_simp

section \<open>Period aggregator\<close>









section \<open>Source normalizers\<close>

lemma format_apool_corrected:
  assumes "format_apool_data P d t = Inr (Some r)"
  shows "corrected_hashrate_of (pool_hash r) (accepted_solution r) t = Inr (corrected_hashrate r)"
  using assms
  by (auto simp: format_apool_data_def bind_result_def Let_def split: sum.splits if_splits)

lemma format_solutions_corrected:
  assumes "format_solutions_data P d t = Inr (Some r)"
  shows "corrected_hashrate_of (pool_hash r) (accepted_solution r) t = Inr (corrected_hashrate r)"
  using assms
  by (auto simp: format_solutions_data_def bind_result_def Let_def split: sum.splits if_splits)

lemma format_minerlab_corrected:
  assumes "format_minerlab_data P d t = Inr (Some r)"
  shows "corrected_hashrate_of (pool_hash r) (accepted_solution r) t = Inr (corrected_hashrate r)"
  using assms
  by (auto simp: format_minerlab_data_def bind_result_def Let_def
      split: sum.splits if_splits json.splits list.splits)

lemma format_apool_None:
  "format_apool_data P d t = Inr None \<longleftrightarrow> \<not> truthy d \<or> py_contains ''result'' d = Inr False"
  by (auto simp: format_apool_data_def bind_result_def Let_def split: sum.splits if_splits)

lemma format_solutions_None:
  "format_solutions_data P d t = Inr None \<longleftrightarrow> \<not> truthy d"
  by (auto simp: format_solutions_data_def bind_result_def Let_def split: sum.splits if_splits)

lemma format_minerlab_None:
  "format_minerlab_data P d t = Inr None \<longleftrightarrow> (\<forall>x xs. d \<noteq> JArr (x # xs))"
  by (auto simp: format_minerlab_data_def bind_result_def Let_def
      split: sum.splits if_splits json.splits list.splits)

lemma binary64_0: "binary64 0 = 0"
  by (simp add: binary64_def)

lemma py_float_default: "py_float P (JInt 0) = Inr 0"
  by (simp add: binary64_0)

lemma corrected_zero: "corrected_hashrate_of p (JInt 0) t = Inr 0"
  by (simp add: corrected_hashrate_of_def)

lemma shares_zero: "shares_per_solution_of s (JInt 0) = Inr 0"
  by (simp add: shares_per_solution_of_def)

lemma format_apool_missing:
  assumes "map_of kvs ''result'' = Some (JObj fs)"
    and "map_of fs ''accepted_solution'' = None"
    and "py_float P (case map_of fs ''pool_hash'' of None \<Rightarrow> JInt 0 | Some v \<Rightarrow> v) = Inr x"
  shows "format_apool_data P (JObj kvs) t =
     Inr (Some \<lparr>accepted_solution = JInt 0, pool_hash = py_int x, corrected_hashrate = 0,
                total_share = (case map_of fs ''total_share'' of None \<Rightarrow> JInt 0 | Some v \<Rightarrow> v),
                shares_per_solution = 0\<rparr>)"
proof -
  from assms(1) have "kvs \<noteq> []" by auto
  then show ?thesis
    using assms
    by (simp add: format_apool_data_def bind_result_def Let_def corrected_zero shares_zero)
qed

lemma format_solutions_missing:
  assumes "kvs \<noteq> []"
    and "map_of kvs ''solo'' = None" "map_of kvs ''pplns'' = None"
    and "py_float P (case map_of kvs ''iterrate'' of None \<Rightarrow> JInt 0 | Some v \<Rightarrow> v) = Inr x"
  shows "format_solutions_data P (JObj kvs) t =
     Inr (Some \<lparr>accepted_solution = JInt 0, pool_hash = py_int x, corrected_hashrate = 0,
                total_share = JInt 0, shares_per_solution = 0,
                solo_solutions = JInt 0, pplns_solutions = JInt 0\<rparr>)"
  using assms
  by (simp add: format_solutions_data_def bind_result_def Let_def corrected_zero shares_zero
      py_add_def)

lemma format_minerlab_missing:
  assumes "map_of fs ''currentEpochSolutions'' = None"
    and "py_float P (case map_of fs ''currentIts'' of None \<Rightarrow> JInt 0 | Some v \<Rightarrow> v) = Inr x"
  shows "format_minerlab_data P (JArr (JObj fs # rest)) t =
     Inr (Some \<lparr>accepted_solution = JInt 0, pool_hash = py_int x, corrected_hashrate = 0\<rparr>)"
  using assms
  by (simp add: format_minerlab_data_def bind_result_def Let_def corrected_zero)

text \<open>
  Claim C8, as the code has it. A normalizer returns \<open>None\<close> only for an absent payload:
  an empty or missing one, for apool also one without the key \<open>result\<close>, for minerlab
  anything but a non-empty list. A payload whose nested fields are missing neither crashes
  nor yields \<open>None\<close>: every missing field is read as \<open>0\<close>, the record is returned, and with
  the solution count missing its \<open>shares_per_solution\<close> and \<open>corrected_hashrate\<close> are \<open>0\<close>.
\<close>

theorem normalizers_default_missing_fields:
  "(format_apool_data P d t = Inr None \<longleftrightarrow>
      \<not> truthy d \<or> py_contains ''result'' d = Inr False)
   \<and> (format_solutions_data P d t = Inr None \<longleftrightarrow> \<not> truthy d)
   \<and> (format_minerlab_data P d t = Inr None \<longleftrightarrow> (\<forall>x xs. d \<noteq> JArr (x # xs)))
   \<and> (map_of kvs ''result'' = Some (JObj fs)
       \<and> map_of fs ''accepted_solution'' = None
       \<and> py_float P (case map_of fs ''pool_hash'' of None \<Rightarrow> JInt 0 | Some v \<Rightarrow> v) = Inr x
       \<longrightarrow> format_apool_data P (JObj kvs) t =
             Inr (Some \<lparr>accepted_solution = JInt 0, pool_hash = py_int x, corrected_hashrate = 0,
                total_share = (case map_of fs ''total_share'' of None \<Rightarrow> JInt 0 | Some v \<Rightarrow> v),
                shares_per_solution = 0\<rparr>))
   \<and> (kvs' \<noteq> []
       \<and> map_of kvs' ''solo'' = None \<and> map_of kvs' ''pplns'' = None
       \<and> py_float P (case map_of kvs' ''iterrate'' of None \<Rightarrow> JInt 0 | Some v \<Rightarrow> v) = Inr x'
       \<longrightarrow> format_solutions_data P (JObj kvs') t =
             Inr (Some \<lparr>accepted_solution = JInt 0, pool_hash = py_int x', corrected_hashrate = 0,
                total_share = JInt 0, shares_per_solution = 0,
                solo_solutions = JInt 0, pplns_solutions = JInt 0\<rparr>))
   \<and> (map_of fs' ''currentEpochSolutions'' = None
       \<and> py_float P (case map_of fs' ''currentIts'' of None \<Rightarrow> JInt 0 | Some v \<Rightarrow> v) = Inr x''
       \<longrightarrow> format_minerlab_data P (JArr (JObj fs' # rest)) t =
             Inr (Some \<lparr>accepted_solution = JInt 0, pool_hash = py_int x'',
                corrected_hashrate = 0\<rparr>))"
proof (intro conjI impI)
  show "format_apool_data P d t = Inr None \<longleftrightarrow>
      \<not> truthy d \<or> py_contains ''result'' d = Inr False"
    by (rule format_apool_None)
  show "format_solutions_data P d t = Inr None \<longleftrightarrow> \<not> truthy d"
    by (rule format_solutions_None)
  show "format_minerlab_data P d t = Inr None \<longleftrightarrow> (\<forall>x xs. d \<noteq> JArr (x # xs))"
    by (rule format_minerlab_None)
next
  assume "map_of kvs ''result'' = Some (JObj fs)
       \<and> map_of fs ''accepted_solution'' = None
       \<and> py_float P (case map_of fs ''pool_hash'' of None \<Rightarrow> JInt 0 | Some v \<Rightarrow> v) = Inr x"
  then show "format_apool_data P (JObj kvs) t =
             Inr (Some \<lparr>accepted_solution = JInt 0, pool_hash = py_int x, corrected_hashrate = 0,
                total_share = (case map_of fs ''total_share'' of None \<Rightarrow> JInt 0 | Some v \<Rightarrow> v),
                shares_per_solution = 0\<rparr>)"
    using format_apool_missing[of kvs fs P x t] by blast
next
  assume "kvs' \<noteq> []
       \<and> map_of kvs' ''solo'' = None \<and> map_of kvs' ''pplns'' = None
       \<and> py_float P (case map_of kvs' ''iterrate'' of None \<Rightarrow> JInt 0 | Some v \<Rightarrow> v) = Inr x'"
  then show "format_solutions_data P (JObj kvs') t =
             Inr (Some \<lparr>accepted_solution = JInt 0, pool_hash = py_int x', corrected_hashrate = 0,
                total_share = JInt 0, shares_per_solution = 0,
                solo_solutions = JInt 0, pplns_solutions = JInt 0\<rparr>)"
    using format_solutions_missing[of kvs' P x' t] by blast
next
  assume "map_of fs' ''currentEpochSolutions'' = None
       \<and> py_float P (case map_of fs' ''currentIts'' of None \<Rightarrow> JInt 0 | Some v \<Rightarrow> v) = Inr x''"
  then show "format_minerlab_data P (JArr (JObj fs' # rest)) t =
             Inr (Some \<lparr>accepted_solution = JInt 0, pool_hash = py_int x'',
                corrected_hashrate = 0\<rparr>)"
    using format_minerlab_missing[of fs' P x'' rest t] by blast
qed

theorem normalizers_default_missing_fields_witness:
  "format_apool_data no_parse JNull (JInt 10) = Inr None
   \<and> format_apool_data no_parse (JObj [(''status'', JInt 1)]) (JInt 10) = Inr None
   \<and> format_solutions_data no_parse (JObj []) (JInt 10) = Inr None
   \<and> format_minerlab_data no_parse (JArr []) (JInt 10) = Inr None
   \<and> format_apool_data no_parse (JObj [(''result'', JObj [(''pool_hash'', JInt 100)])]) (JInt 10)
       = Inr (Some \<lparr>accepted_solution = JInt 0, pool_hash = 100, corrected_hashrate = 0,
                total_share = JInt 0, shares_per_solution = 0\<rparr>)
   \<and> format_solutions_data no_parse (JObj [(''iterrate'', JInt 100)]) (JInt 10)
       = Inr (Some \<lparr>accepted_solution = JInt 0, pool_hash = 100, corrected_hashrate = 0,
                total_share = JInt 0, shares_per_solution = 0,
                solo_solutions = JInt 0, pplns_solutions = JInt 0\<rparr>)
   \<and> format_minerlab_data no_parse (JArr [JObj [(''currentIts'', JInt 100)]]) (JInt 10)
       = Inr (Some \<lparr>accepted_solution = JInt 0, pool_hash = 100, corrected_hashrate = 0\<rparr>)"
proof -
  have f: "py_float no_parse (JInt 100) = Inr 100" by code_simp
  have i: "py_int 100 = 100" by code_simp
  have c: "py_contains ''result'' (JObj [(''status'', JInt 1)]) = Inr False" by code_simp
  have e: "\<forall>x xs. JArr [] \<noteq> JArr (x # xs)" by simp
  note A = normalizers_default_missing_fields [of no_parse JNull "JInt 10"
      "[(''result'', JObj [(''pool_hash'', JInt 100)])]" "[(''pool_hash'', JInt 100)]" 100
      "[(''iterrate'', JInt 100)]" 100 "[(''currentIts'', JInt 100)]" 100 "[]"]
  note B = normalizers_default_missing_fields [of no_parse "JObj [(''status'', JInt 1)]" "JInt 10"]
  note C = normalizers_default_missing_fields [of no_parse "JObj []" "JInt 10"]
  note D = normalizers_default_missing_fields [of no_parse "JArr []" "JInt 10"]
  show ?thesis
    using A B C D f i c e by simp
qed

text \<open>
  Claim C8 as stated fails: a payload of each source with the solution fields missing is
  normalized to a record whose solution count, \<open>shares_per_solution\<close> and
  \<open>corrected_hashrate\<close> are \<open>0\<close>, not to \<open>None\<close>.
\<close>

theorem normalizers_zero_fill_counterexample:
  "format_solutions_data no_parse (JObj [(''iterrate'', JInt 100)]) (JInt 10) =
     Inr (Some \<lparr>accepted_solution = JInt 0, pool_hash = 100, corrected_hashrate = 0,
                total_share = JInt 0, shares_per_solution = 0,
                solo_solutions = JInt 0, pplns_solutions = JInt 0\<rparr>)
   \<and> format_apool_data no_parse (JObj [(''result'', JObj [(''pool_hash'', JInt 100)])]) (JInt 10) =
     Inr (Some \<lparr>accepted_solution = JInt 0, pool_hash = 100, corrected_hashrate = 0,
                total_share = JInt 0, shares_per_solution = 0\<rparr>)
   \<and> format_minerlab_data no_parse (JArr [JObj [(''currentIts'', JInt 100)]]) (JInt 10) =
     Inr (Some \<lparr>accepted_solution = JInt 0, pool_hash = 100, corrected_hashrate = 0\<rparr>)"
  by code_simp

text \<open>
  Claim C9, as the code has it. For each pool normalizer the returned
  \<open>corrected_hashrate\<close> is \<open>int\<close> of the double-precision value of
  \<open>pool_hash / accepted_solution * total_solutions\<close>: with non-negative integers and a
  positive solution count, the quotient is rounded to a double, the product is rounded
  again, and the result is truncated. This is the exact floor when the solution count
  divides \<open>pool_hash\<close> and \<open>pool_hash\<close>, \<open>total_solutions\<close> and the result are below \<open>2^53\<close>.
  With a solution count of \<open>0\<close> it is \<open>0\<close>.
\<close>

theorem corrected_hashrate_rounding:
  "(format_apool_data P d1 t = Inr (Some r1) \<longrightarrow>
      corrected_hashrate_of (pool_hash r1) (accepted_solution r1) t = Inr (corrected_hashrate r1))
   \<and> (format_solutions_data P d2 t = Inr (Some r2) \<longrightarrow>
      corrected_hashrate_of (pool_hash r2) (accepted_solution r2) t = Inr (corrected_hashrate r2))
   \<and> (format_minerlab_data P d3 t = Inr (Some r3) \<longrightarrow>
      corrected_hashrate_of (pool_hash r3) (accepted_solution r3) t = Inr (corrected_hashrate r3))
   \<and> (0 < a \<and> 0 \<le> p \<and> 0 \<le> n \<longrightarrow>
      corrected_hashrate_of p (JInt a) (JInt n) =
        Inr (py_int (binary64 (binary64 (of_int p / of_int a) * binary64 (of_int n)))))
   \<and> (0 < a \<and> 0 \<le> p \<and> 0 \<le> n \<and> a dvd p \<and> p < 2 ^ 53 \<and> n < 2 ^ 53 \<and> p div a * n < 2 ^ 53 \<longrightarrow>
      corrected_hashrate_of p (JInt a) (JInt n) = Inr \<lfloor>(of_int p :: rat) / of_int a * of_int n\<rfloor>)
   \<and> corrected_hashrate_of p (JInt 0) t = Inr 0"
proof (intro conjI impI)
  show "corrected_hashrate_of (pool_hash r1) (accepted_solution r1) t = Inr (corrected_hashrate r1)"
    if "format_apool_data P d1 t = Inr (Some r1)"
    using that by (rule format_apool_corrected)
  show "corrected_hashrate_of (pool_hash r2) (accepted_solution r2) t = Inr (corrected_hashrate r2)"
    if "format_solutions_data P d2 t = Inr (Some r2)"
    using that by (rule format_solutions_corrected)
  show "corrected_hashrate_of (pool_hash r3) (accepted_solution r3) t = Inr (corrected_hashrate r3)"
    if "format_minerlab_data P d3 t = Inr (Some r3)"
    using that by (rule format_minerlab_corrected)
  show "corrected_hashrate_of p (JInt a) (JInt n) =
        Inr (py_int (binary64 (binary64 (of_int p / of_int a) * binary64 (of_int n))))"
    if "0 < a \<and> 0 \<le> p \<and> 0 \<le> n"
    using that
    by (simp add: corrected_hashrate_of_def py_truediv_def py_mul_float_def bind_result_def)
  show "corrected_hashrate_of p (JInt a) (JInt n) = Inr \<lfloor>(of_int p :: rat) / of_int a * of_int n\<rfloor>"
    if "0 < a \<and> 0 \<le> p \<and> 0 \<le> n \<and> a dvd p \<and> p < 2 ^ 53 \<and> n < 2 ^ 53 \<and> p div a * n < 2 ^ 53"
    using that corrected_hashrate_exact[of a p n] by simp
  show "corrected_hashrate_of p (JInt 0) t = Inr 0"
    by (rule corrected_zero)
qed

theorem corrected_hashrate_rounding_witness:
  "format_minerlab_data no_parse
      (JArr [JObj [(''currentEpochSolutions'', JInt 5), (''currentIts'', JInt 100)]]) (JInt 10)
     = Inr (Some \<lparr>accepted_solution = JInt 5, pool_hash = 100, corrected_hashrate = 200\<rparr>)
   \<and> corrected_hashrate_of 100 (JInt 5) (JInt 10) = Inr 200
   \<and> (5 :: int) dvd 100
   \<and> \<lfloor>(of_int 100 :: rat) / of_int 5 * of_int 10\<rfloor> = 200
   \<and> corrected_hashrate_of 13 (JInt 3) (JInt 27) = Inr 116"
proof -
  have m: "format_minerlab_data no_parse
      (JArr [JObj [(''currentEpochSolutions'', JInt 5), (''currentIts'', JInt 100)]]) (JInt 10)
     = Inr (Some \<lparr>accepted_solution = JInt 5, pool_hash = 100, corrected_hashrate = 200\<rparr>)"
    by code_simp
  have fl: "\<lfloor>(of_int 100 :: rat) / of_int 5 * of_int 10\<rfloor> = 200"
    by simp
  have r: "py_int (binary64 (binary64 (of_int 13 / of_int 3) * binary64 (of_int 27))) = 116"
    by code_simp
  note A = corrected_hashrate_rounding [of no_parse _ "JInt 10" _ _ _
      "JArr [JObj [(''currentEpochSolutions'', JInt 5), (''currentIts'', JInt 100)]]"
      "\<lparr>accepted_solution = JInt 5, pool_hash = 100, corrected_hashrate = 200\<rparr>" 5 100 10]
  note B = corrected_hashrate_rounding [of no_parse _ "JInt 10" _ _ _ _ _ 3 13 27]
  show ?thesis
    using A B m fl r by simp
qed

text \<open>
  Claim C9 as stated fails: with \<open>pool_hash = 13\<close>, three accepted solutions and 27 network
  solutions the exact value is \<open>117\<close> and the normalizer returns \<open>116\<close>; with
  \<open>pool_hash = 5638399000\<close>, 143 accepted solutions and 1298 network solutions the exact
  value is \<open>51179314000\<close> and the normalizer returns \<open>51179313999\<close>.
\<close>

theorem corrected_hashrate_not_exact_counterexample:
  "format_minerlab_data no_parse
      (JArr [JObj [(''currentEpochSolutions'', JInt 3), (''currentIts'', JInt 13)]]) (JInt 27) =
     Inr (Some \<lparr>accepted_solution = JInt 3, pool_hash = 13, corrected_hashrate = 116\<rparr>)
   \<and> \<lfloor>(13 :: rat) / 3 * 27\<rfloor> = 117
   \<and> format_apool_data no_parse
      (JObj [(''result'', JObj [(''accepted_solution'', JInt 143), (''pool_hash'', JInt 5638399000),
                               (''total_share'', JInt 0)])]) (JInt 1298) =
     Inr (Some \<lparr>accepted_solution = JInt 143, pool_hash = 5638399000,
                corrected_hashrate = 51179313999,
                total_share = JInt 0, shares_per_solution = 0\<rparr>)
   \<and> \<lfloor>(5638399000 :: rat) / 143 * 1298\<rfloor> = 51179314000"
  by code_simp

end
